theory Spec2Isabelle
  imports Main "HOL-Library.Word" "HOL-Library.Monad_Syntax"
begin

unbundle bit_operations_syntax

section \<open>The BCM2835 MMC host driver (drivers/mmc/host/bcm2835-mmc.c)\<close>

text \<open>
  A shallow embedding of the driver. The C integers that carry bits (registers, flag
  words, masks) are machine words; register offsets are \<open>int\<close>, as the C parameter
  \<open>int reg\<close> is. The hardware behind the MMIO window is a parameter: a device with a
  state of its own that answers 32-bit reads, takes 32-bit writes and lives through the
  delays of the driver. Every call that leaves the driver (MMIO write, delay, tasklet,
  timer, DMA engine) is appended to a trace kept beside the host state. A kernel
  \<open>BUG()\<close> or a NULL dereference is the result \<open>None\<close>.
\<close>

type_synonym u8 = "8 word"
type_synonym u16 = "16 word"
type_synonym u32 = "32 word"

subsection \<open>Constants of the headers\<close>

text \<open>
  Modelled from the spec: the header \<open>sdhci.h\<close> is not part of the sources at hand. The
  spec calls the register map "SDHCI-compatible" (the standard register file: command,
  argument, block size/count, transfer mode, present-state, interrupt status/enable), so
  the offsets and bits below are the ones of that standard layout, under the names the
  driver uses.
\<close>

definition SDHCI_ARGUMENT2 :: int where "SDHCI_ARGUMENT2 = 0x00"
definition SDHCI_BLOCK_SIZE :: int where "SDHCI_BLOCK_SIZE = 0x04"
definition SDHCI_BLOCK_COUNT :: int where "SDHCI_BLOCK_COUNT = 0x06"
definition SDHCI_ARGUMENT :: int where "SDHCI_ARGUMENT = 0x08"
definition SDHCI_TRANSFER_MODE :: int where "SDHCI_TRANSFER_MODE = 0x0C"
definition SDHCI_COMMAND :: int where "SDHCI_COMMAND = 0x0E"
definition SDHCI_RESPONSE :: int where "SDHCI_RESPONSE = 0x10"
definition SDHCI_BUFFER :: int where "SDHCI_BUFFER = 0x20"
definition SDHCI_PRESENT_STATE :: int where "SDHCI_PRESENT_STATE = 0x24"
definition SDHCI_CLOCK_CONTROL :: int where "SDHCI_CLOCK_CONTROL = 0x2C"
definition SDHCI_TIMEOUT_CONTROL :: int where "SDHCI_TIMEOUT_CONTROL = 0x2E"
definition SDHCI_SOFTWARE_RESET :: int where "SDHCI_SOFTWARE_RESET = 0x2F"
definition SDHCI_INT_STATUS :: int where "SDHCI_INT_STATUS = 0x30"
definition SDHCI_INT_ENABLE :: int where "SDHCI_INT_ENABLE = 0x34"
definition SDHCI_SIGNAL_ENABLE :: int where "SDHCI_SIGNAL_ENABLE = 0x38"

definition SDHCI_TRNS_DMA :: u16 where "SDHCI_TRNS_DMA = 0x01"
definition SDHCI_TRNS_BLK_CNT_EN :: u16 where "SDHCI_TRNS_BLK_CNT_EN = 0x02"
definition SDHCI_TRNS_AUTO_CMD12 :: u16 where "SDHCI_TRNS_AUTO_CMD12 = 0x04"
definition SDHCI_TRNS_AUTO_CMD23 :: u16 where "SDHCI_TRNS_AUTO_CMD23 = 0x08"
definition SDHCI_TRNS_READ :: u16 where "SDHCI_TRNS_READ = 0x10"
definition SDHCI_TRNS_MULTI :: u16 where "SDHCI_TRNS_MULTI = 0x20"

definition SDHCI_CMD_CRC :: u32 where "SDHCI_CMD_CRC = 0x08"
definition SDHCI_CMD_INDEX :: u32 where "SDHCI_CMD_INDEX = 0x10"
definition SDHCI_CMD_DATA :: u32 where "SDHCI_CMD_DATA = 0x20"
definition SDHCI_CMD_RESP_NONE :: u32 where "SDHCI_CMD_RESP_NONE = 0x00"
definition SDHCI_CMD_RESP_LONG :: u32 where "SDHCI_CMD_RESP_LONG = 0x01"
definition SDHCI_CMD_RESP_SHORT :: u32 where "SDHCI_CMD_RESP_SHORT = 0x02"
definition SDHCI_CMD_RESP_SHORT_BUSY :: u32 where "SDHCI_CMD_RESP_SHORT_BUSY = 0x03"

definition SDHCI_CMD_INHIBIT :: u32 where "SDHCI_CMD_INHIBIT = 0x00000001"
definition SDHCI_DATA_INHIBIT :: u32 where "SDHCI_DATA_INHIBIT = 0x00000002"
definition SDHCI_SPACE_AVAILABLE :: u32 where "SDHCI_SPACE_AVAILABLE = 0x00000400"
definition SDHCI_DATA_AVAILABLE :: u32 where "SDHCI_DATA_AVAILABLE = 0x00000800"

definition SDHCI_DIVIDER_SHIFT :: nat where "SDHCI_DIVIDER_SHIFT = 8"
definition SDHCI_DIVIDER_HI_SHIFT :: nat where "SDHCI_DIVIDER_HI_SHIFT = 6"
definition SDHCI_DIV_MASK :: u32 where "SDHCI_DIV_MASK = 0xFF"
definition SDHCI_DIV_MASK_LEN :: nat where "SDHCI_DIV_MASK_LEN = 8"
definition SDHCI_DIV_HI_MASK :: u32 where "SDHCI_DIV_HI_MASK = 0x300"
definition SDHCI_CLOCK_CARD_EN :: u16 where "SDHCI_CLOCK_CARD_EN = 0x0004"
definition SDHCI_CLOCK_INT_STABLE :: u16 where "SDHCI_CLOCK_INT_STABLE = 0x0002"
definition SDHCI_CLOCK_INT_EN :: u16 where "SDHCI_CLOCK_INT_EN = 0x0001"

definition SDHCI_RESET_ALL :: u8 where "SDHCI_RESET_ALL = 0x01"
definition SDHCI_RESET_CMD :: u8 where "SDHCI_RESET_CMD = 0x02"
definition SDHCI_RESET_DATA :: u8 where "SDHCI_RESET_DATA = 0x04"

definition SDHCI_INT_RESPONSE :: u32 where "SDHCI_INT_RESPONSE = 0x00000001"
definition SDHCI_INT_DATA_END :: u32 where "SDHCI_INT_DATA_END = 0x00000002"
definition SDHCI_INT_BLK_GAP :: u32 where "SDHCI_INT_BLK_GAP = 0x00000004"
definition SDHCI_INT_DMA_END :: u32 where "SDHCI_INT_DMA_END = 0x00000008"
definition SDHCI_INT_SPACE_AVAIL :: u32 where "SDHCI_INT_SPACE_AVAIL = 0x00000010"
definition SDHCI_INT_DATA_AVAIL :: u32 where "SDHCI_INT_DATA_AVAIL = 0x00000020"
definition SDHCI_INT_CARD_INSERT :: u32 where "SDHCI_INT_CARD_INSERT = 0x00000040"
definition SDHCI_INT_CARD_REMOVE :: u32 where "SDHCI_INT_CARD_REMOVE = 0x00000080"
definition SDHCI_INT_CARD_INT :: u32 where "SDHCI_INT_CARD_INT = 0x00000100"
definition SDHCI_INT_ERROR :: u32 where "SDHCI_INT_ERROR = 0x00008000"
definition SDHCI_INT_TIMEOUT :: u32 where "SDHCI_INT_TIMEOUT = 0x00010000"
definition SDHCI_INT_CRC :: u32 where "SDHCI_INT_CRC = 0x00020000"
definition SDHCI_INT_END_BIT :: u32 where "SDHCI_INT_END_BIT = 0x00040000"
definition SDHCI_INT_INDEX :: u32 where "SDHCI_INT_INDEX = 0x00080000"
definition SDHCI_INT_DATA_TIMEOUT :: u32 where "SDHCI_INT_DATA_TIMEOUT = 0x00100000"
definition SDHCI_INT_DATA_CRC :: u32 where "SDHCI_INT_DATA_CRC = 0x00200000"
definition SDHCI_INT_DATA_END_BIT :: u32 where "SDHCI_INT_DATA_END_BIT = 0x00400000"
definition SDHCI_INT_BUS_POWER :: u32 where "SDHCI_INT_BUS_POWER = 0x00800000"
definition SDHCI_INT_ADMA_ERROR :: u32 where "SDHCI_INT_ADMA_ERROR = 0x02000000"

definition SDHCI_INT_CMD_MASK :: u32 where
  "SDHCI_INT_CMD_MASK =
     SDHCI_INT_RESPONSE OR SDHCI_INT_TIMEOUT OR SDHCI_INT_CRC OR SDHCI_INT_END_BIT OR
     SDHCI_INT_INDEX"

definition SDHCI_INT_DATA_MASK :: u32 where
  "SDHCI_INT_DATA_MASK =
     SDHCI_INT_DATA_END OR SDHCI_INT_DMA_END OR SDHCI_INT_DATA_AVAIL OR
     SDHCI_INT_SPACE_AVAIL OR SDHCI_INT_DATA_TIMEOUT OR SDHCI_INT_DATA_CRC OR
     SDHCI_INT_DATA_END_BIT OR SDHCI_INT_ADMA_ERROR OR SDHCI_INT_BLK_GAP"

text \<open>
  Modelled from the spec: the clock divisor search is "bounded by the hardware's maximum
  divisor field width". The divider field the driver programs has ten bits
  (\<open>SDHCI_DIV_MASK\<close> and \<open>SDHCI_DIV_HI_MASK\<close>) and holds half the divisor, so the
  bound of the standard layout is 2046.
\<close>

definition SDHCI_MAX_DIV_SPEC_300 :: nat where "SDHCI_MAX_DIV_SPEC_300 = 2046"

definition SDHCI_DEFAULT_BOUNDARY_ARG :: u32 where "SDHCI_DEFAULT_BOUNDARY_ARG = 7"

definition SDHCI_MAKE_BLKSZ :: "u32 \<Rightarrow> u32 \<Rightarrow> u32" where
  "SDHCI_MAKE_BLKSZ dma blksz = push_bit 12 (dma AND 0x7) OR (blksz AND 0xFFF)"

definition SDHCI_MAKE_CMD :: "u32 \<Rightarrow> u32 \<Rightarrow> u32" where
  "SDHCI_MAKE_CMD c f = push_bit 8 (c AND 0xff) OR (f AND 0xff)"

definition SDHCI_GET_CMD :: "u16 \<Rightarrow> u16" where
  "SDHCI_GET_CMD c = drop_bit 8 c AND 0x3f"

text \<open>
  Modelled from the spec: the MMC core headers (\<open>linux/mmc/core.h\<close>, \<open>mmc.h\<close>) and
  \<open>errno.h\<close> are not part of the sources at hand either. Response-shape flags
  (none/short/long/short-with-busy), data direction flags, the multi-block opcodes and
  the error codes carry the values of those headers.
\<close>

definition MMC_RSP_PRESENT :: u32 where "MMC_RSP_PRESENT = 0x01"
definition MMC_RSP_136 :: u32 where "MMC_RSP_136 = 0x02"
definition MMC_RSP_CRC :: u32 where "MMC_RSP_CRC = 0x04"
definition MMC_RSP_BUSY :: u32 where "MMC_RSP_BUSY = 0x08"
definition MMC_RSP_OPCODE :: u32 where "MMC_RSP_OPCODE = 0x10"
definition MMC_DATA_WRITE :: u32 where "MMC_DATA_WRITE = 0x100"
definition MMC_DATA_READ :: u32 where "MMC_DATA_READ = 0x200"
definition MMC_BUS_TEST_R :: u16 where "MMC_BUS_TEST_R = 14"
definition MMC_READ_MULTIPLE_BLOCK :: u32 where "MMC_READ_MULTIPLE_BLOCK = 18"
definition MMC_WRITE_MULTIPLE_BLOCK :: u32 where "MMC_WRITE_MULTIPLE_BLOCK = 25"

definition mmc_op_multi :: "u32 \<Rightarrow> bool" where
  "mmc_op_multi opc \<longleftrightarrow> opc = MMC_WRITE_MULTIPLE_BLOCK \<or> opc = MMC_READ_MULTIPLE_BLOCK"

definition EIO :: int where "EIO = 5"
definition EINVAL :: int where "EINVAL = 22"
definition EILSEQ :: int where "EILSEQ = 84"
definition ETIMEDOUT :: int where "ETIMEDOUT = 110"

subsection \<open>Constants of the driver\<close>

definition MIN_FREQ :: int where "MIN_FREQ = 400000"
definition TIMEOUT_VAL :: u8 where "TIMEOUT_VAL = 0xE"

definition BCM2835_SDHCI_WRITE_DELAY :: "int \<Rightarrow> int" where
  "BCM2835_SDHCI_WRITE_DELAY f = ((2 * 1000000) div f) + 1"

definition SDHCI_REQ_USE_DMA :: u32 where "SDHCI_REQ_USE_DMA = push_bit 2 1"
definition SDHCI_DEVICE_DEAD :: u32 where "SDHCI_DEVICE_DEAD = push_bit 3 1"
definition SDHCI_AUTO_CMD12 :: u32 where "SDHCI_AUTO_CMD12 = push_bit 6 1"
definition SDHCI_AUTO_CMD23 :: u32 where "SDHCI_AUTO_CMD23 = push_bit 7 1"
definition SDHCI_SDIO_IRQ_ENABLED :: u32 where "SDHCI_SDIO_IRQ_ENABLED = push_bit 9 1"

subsection \<open>Data model\<close>

record mmc_command =
  opcode :: u32
  arg :: u32
  resp :: "nat \<Rightarrow> u32"
  cmd_flags :: u32
  cmd_error :: int
  busy_timeout :: u32

record mmc_data =
  blksz :: u32
  data_blocks :: u32
  data_flags :: u32
  data_error :: int
  bytes_xfered :: u32
  stop :: "mmc_command option"
  sg :: "u8 list list"

text \<open>
  Modelled from the spec: a Request is "an optional set-block-count sub-command, a main
  Command, an optional Data descriptor, an optional stop Command". The data descriptor
  is the main command's (\<open>mrq->cmd->data\<close> is \<open>mrq->data\<close>); the sub-command and the
  stop command carry none. The stop command hangs off the data, as \<open>data->stop\<close>.
\<close>

record mmc_request =
  sbc :: "mmc_command option"
  mrq_cmd :: mmc_command
  mrq_data :: "mmc_data option"

text \<open>
  The pointers \<open>host->cmd\<close> and \<open>host->data\<close> point into the current request: a
  command pointer is the role of the command it points to, the data pointer is the
  request's data; \<open>None\<close> is NULL.
\<close>

datatype cmd_ref = SBC | CMD | STOP
datatype data_ref = MRQ_DATA

text \<open>
  Modelled from the spec: the scatter-gather iterator (\<open>sg_miter_start\<close>,
  \<open>sg_miter_next\<close>, \<open>consumed\<close>) is kernel library code outside the sources at hand.
  It walks the "ordered list of memory regions", handing out what is left of the current
  region: \<open>sg_todo\<close> are the regions still ahead (the head is the current one),
  \<open>sg_done\<close> the memory already passed, in order.
\<close>

record sg_mapping_iter =
  sg_done :: "u8 list list"
  sg_todo :: "u8 list list"

datatype dma_dir = DMA_TO_DEVICE | DMA_FROM_DEVICE

datatype event =
    MmioWrite int u32
  | Udelay nat
  | Mdelay nat
  | TaskletSchedule
  | ModTimer nat
  | DmaUnmapSg dma_dir
  | DmaMapSg dma_dir
  | DmaSubmit
  | DmaIssuePending
  | SdioIrq

text \<open>
  The hardware: \<open>dev_readl\<close> answers a 32-bit read at a word offset and may change the
  device (reads of a FIFO or of a status register do), \<open>dev_writel\<close> takes a write,
  \<open>dev_delay\<close> lets the given number of microseconds pass, \<open>dev_dma_prep\<close> is the
  DMA engine: whether mapping the list and preparing a descriptor succeeds.
\<close>

record 'h device =
  dev_readl :: "'h \<Rightarrow> int \<Rightarrow> u32 \<times> 'h"
  dev_writel :: "'h \<Rightarrow> int \<Rightarrow> u32 \<Rightarrow> 'h"
  dev_delay :: "'h \<Rightarrow> nat \<Rightarrow> 'h"
  dev_dma_prep :: "'h \<Rightarrow> dma_dir \<Rightarrow> bool \<times> 'h"

text \<open>
  \<open>struct bcm2835_host\<close>, with the fields of \<open>struct mmc_host\<close> the driver uses
  (\<open>actual_clock\<close>, \<open>max_blk_size\<close>), the module parameter \<open>mmc_debug\<close>, the state
  of the device and the trace.
\<close>

record 'h bcm2835_host =
  clock :: int
  max_clk :: u32
  actual_clock :: u32
  max_blk_size :: u32
  sg_miter :: sg_mapping_iter
  blocks :: u32
  ier :: u32
  mrq :: "mmc_request option"
  cmd :: "cmd_ref option"
  data :: "data_ref option"
  data_early :: bool
  thread_isr :: u32
  shadow :: u32
  have_dma :: bool
  use_dma :: bool
  max_delay :: int
  flags :: u32
  mmc_debug :: u32
  hw :: 'h
  trace :: "event list"

subsection \<open>Register access layer\<close>

definition udelay :: "'h device \<Rightarrow> 'h bcm2835_host \<Rightarrow> nat \<Rightarrow> 'h bcm2835_host" where
  "udelay d host n = host\<lparr>hw := dev_delay d (hw host) n, trace := trace host @ [Udelay n]\<rparr>"

definition mdelay :: "'h device \<Rightarrow> 'h bcm2835_host \<Rightarrow> nat \<Rightarrow> 'h bcm2835_host" where
  "mdelay d host n =
     host\<lparr>hw := dev_delay d (hw host) (1000 * n), trace := trace host @ [Mdelay n]\<rparr>"

definition writel :: "'h device \<Rightarrow> 'h bcm2835_host \<Rightarrow> u32 \<Rightarrow> int \<Rightarrow> 'h bcm2835_host" where
  "writel d host val reg =
     host\<lparr>hw := dev_writel d (hw host) reg val, trace := trace host @ [MmioWrite reg val]\<rparr>"

definition readl :: "'h device \<Rightarrow> 'h bcm2835_host \<Rightarrow> int \<Rightarrow> u32 \<times> 'h bcm2835_host" where
  "readl d host reg = (let (v, hw') = dev_readl d (hw host) reg in (v, host\<lparr>hw := hw'\<rparr>))"

text \<open>
  The waits on the AXI counters that \<open>mmc_debug\<close> switches on read the constant 0 in a
  build without \<open>CONFIG_ARCH_BCM2709\<close> and end at once; the pacing delay that
  \<open>mmc_debug\<close> adds after a write is kept.
\<close>

definition bcm2835_mmc_writel ::
  "'h device \<Rightarrow> 'h bcm2835_host \<Rightarrow> u32 \<Rightarrow> int \<Rightarrow> 'h bcm2835_host" where
  "bcm2835_mmc_writel d host val reg =
     (let host = writel d host val reg;
          host = udelay d host (nat (BCM2835_SDHCI_WRITE_DELAY (max (clock host) MIN_FREQ)));
          delay = push_bit (unat (drop_bit 20 (mmc_debug host) AND 0xf))
                    (drop_bit 16 (mmc_debug host) AND 0xf)
      in if delay \<noteq> 0 then udelay d host (unat delay) else host)"

definition mmc_raw_writel ::
  "'h device \<Rightarrow> 'h bcm2835_host \<Rightarrow> u32 \<Rightarrow> int \<Rightarrow> 'h bcm2835_host" where
  "mmc_raw_writel d host val reg =
     (let host = writel d host val reg;
          delay = push_bit (unat (drop_bit 28 (mmc_debug host) AND 0xf))
                    (drop_bit 24 (mmc_debug host) AND 0xf)
      in if delay \<noteq> 0 then udelay d host (unat delay) else host)"

definition bcm2835_mmc_readl ::
  "'h device \<Rightarrow> 'h bcm2835_host \<Rightarrow> int \<Rightarrow> u32 \<times> 'h bcm2835_host" where
  "bcm2835_mmc_readl d host reg = readl d host reg"

definition bcm2835_mmc_writew ::
  "'h device \<Rightarrow> 'h bcm2835_host \<Rightarrow> u16 \<Rightarrow> int \<Rightarrow> 'h bcm2835_host" where
  "bcm2835_mmc_writew d host val reg =
     (let (oldval, host) =
            (if reg = SDHCI_COMMAND then (shadow host, host)
             else bcm2835_mmc_readl d host (reg AND NOT 3));
          word_num = (word_of_int (drop_bit 1 reg AND 1) :: u32);
          word_shift = word_num * 16;
          msk = push_bit (unat word_shift) (0xffff :: u32);
          newval = (oldval AND NOT msk) OR push_bit (unat word_shift) (ucast val)
      in if reg = SDHCI_TRANSFER_MODE then host\<lparr>shadow := newval\<rparr>
         else bcm2835_mmc_writel d host newval (reg AND NOT 3))"

definition bcm2835_mmc_writeb ::
  "'h device \<Rightarrow> 'h bcm2835_host \<Rightarrow> u8 \<Rightarrow> int \<Rightarrow> 'h bcm2835_host" where
  "bcm2835_mmc_writeb d host val reg =
     (let (oldval, host) = bcm2835_mmc_readl d host (reg AND NOT 3);
          byte_num = (word_of_int (reg AND 3) :: u32);
          byte_shift = byte_num * 8;
          msk = push_bit (unat byte_shift) (0xff :: u32);
          newval = (oldval AND NOT msk) OR push_bit (unat byte_shift) (ucast val)
      in bcm2835_mmc_writel d host newval (reg AND NOT 3))"

definition bcm2835_mmc_readw ::
  "'h device \<Rightarrow> 'h bcm2835_host \<Rightarrow> int \<Rightarrow> u16 \<times> 'h bcm2835_host" where
  "bcm2835_mmc_readw d host reg =
     (let (val, host) = bcm2835_mmc_readl d host (reg AND NOT 3);
          word_num = (word_of_int (drop_bit 1 reg AND 1) :: u32);
          word_shift = word_num * 16;
          word = drop_bit (unat word_shift) val AND 0xffff
      in (ucast word, host))"

definition bcm2835_mmc_readb ::
  "'h device \<Rightarrow> 'h bcm2835_host \<Rightarrow> int \<Rightarrow> u8 \<times> 'h bcm2835_host" where
  "bcm2835_mmc_readb d host reg =
     (let (val, host) = bcm2835_mmc_readl d host (reg AND NOT 3);
          byte_num = (word_of_int (reg AND 3) :: u32);
          byte_shift = byte_num * 8;
          byte = drop_bit (unat byte_shift) val AND 0xff
      in (ucast byte, host))"

definition bcm2835_mmc_unsignal_irqs ::
  "'h device \<Rightarrow> 'h bcm2835_host \<Rightarrow> u32 \<Rightarrow> 'h bcm2835_host" where
  "bcm2835_mmc_unsignal_irqs d host clear =
     (let (v, host) = bcm2835_mmc_readl d host SDHCI_SIGNAL_ENABLE
      in bcm2835_mmc_writel d host (v AND NOT clear) SDHCI_SIGNAL_ENABLE)"

text \<open>
  \<open>bcm2835_mmc_dumpregs\<close> reads registers only inside the arguments of \<open>pr_debug\<close>,
  which a build without debugging output does not evaluate; like all logging, it leaves
  the state as it is.
\<close>

definition bcm2835_mmc_dumpregs :: "'h device \<Rightarrow> 'h bcm2835_host \<Rightarrow> 'h bcm2835_host" where
  "bcm2835_mmc_dumpregs d host = host"

subsection \<open>Reset\<close>

text \<open>
  The polling loop of \<open>bcm2835_mmc_reset\<close>: the result is what is left of \<open>timeout\<close>
  when the hardware has cleared the bits, \<open>None\<close> when the loop gave up.
\<close>

fun reset_wait ::
  "'h device \<Rightarrow> 'h bcm2835_host \<Rightarrow> u8 \<Rightarrow> nat \<Rightarrow> nat option \<times> 'h bcm2835_host" where
  "reset_wait d host msk timeout =
     (let (v, host) = bcm2835_mmc_readb d host SDHCI_SOFTWARE_RESET
      in if v AND msk = 0 then (Some timeout, host)
         else if timeout = 0 then (None, host)
         else reset_wait d (mdelay d host 1) msk (timeout - 1))"

declare reset_wait.simps [simp del]

text \<open>
  \<open>host->max_delay\<close> is an \<open>int\<close>, the time waited an \<open>unsigned long\<close>: the comparison
  of the two is unsigned, \<open>ulong\<close> being the conversion of the \<open>int\<close> (a negative
  \<open>max_delay\<close> counts as a large number). \<open>BITS_PER_LONG\<close> is 32 on this SoC; against
  the waits of at most 1000 compared here, 64 gives the same answers.
\<close>

definition ulong :: "int \<Rightarrow> int" where
  "ulong v = v mod 2 ^ 32"

definition bcm2835_mmc_reset ::
  "'h device \<Rightarrow> 'h bcm2835_host \<Rightarrow> u8 \<Rightarrow> 'h bcm2835_host" where
  "bcm2835_mmc_reset d host msk =
     (let host = bcm2835_mmc_writeb d host msk SDHCI_SOFTWARE_RESET;
          host = (if msk AND SDHCI_RESET_ALL \<noteq> 0 then host\<lparr>clock := 0\<rparr> else host);
          (r, host) = reset_wait d host msk 100
      in case r of
           None \<Rightarrow> bcm2835_mmc_dumpregs d host
         | Some timeout \<Rightarrow>
             if 100 - timeout > 10 \<and> int (100 - timeout) > ulong (max_delay host)
             then host\<lparr>max_delay := int (100 - timeout)\<rparr>
             else host)"

subsection \<open>Clock controller\<close>

text \<open>
  The divisor search of \<open>bcm2835_mmc_set_clock\<close>, entered with \<open>dv = 2\<close>:
  \<open>for (div = 2; div < SDHCI_MAX_DIV_SPEC_300; div += 2) if ((max_clk / div) <= clock) break;\<close>
\<close>

function set_clock_div :: "u32 \<Rightarrow> u32 \<Rightarrow> nat \<Rightarrow> nat" where
  "set_clock_div mclk target dv =
     (if dv < SDHCI_MAX_DIV_SPEC_300
      then (if mclk div word_of_nat dv \<le> target then dv
            else set_clock_div mclk target (dv + 2))
      else dv)"
  by pat_completeness auto
termination
  by (relation "measure (\<lambda>(mclk, target, dv). SDHCI_MAX_DIV_SPEC_300 - dv)") auto

declare set_clock_div.simps [simp del]

definition clock_divisor :: "u32 \<Rightarrow> u32 \<Rightarrow> nat" where
  "clock_divisor mclk target = (if mclk \<le> target then 1 else set_clock_div mclk target 2)"

fun clock_wait ::
  "'h device \<Rightarrow> 'h bcm2835_host \<Rightarrow> nat \<Rightarrow> (nat \<times> u16) option \<times> 'h bcm2835_host" where
  "clock_wait d host timeout =
     (let (clk, host) = bcm2835_mmc_readw d host SDHCI_CLOCK_CONTROL
      in if clk AND SDHCI_CLOCK_INT_STABLE \<noteq> 0 then (Some (timeout, clk), host)
         else if timeout = 0 then (None, host)
         else clock_wait d (mdelay d host 1) (timeout - 1))"

declare clock_wait.simps [simp del]

definition bcm2835_mmc_set_clock ::
  "'h device \<Rightarrow> 'h bcm2835_host \<Rightarrow> u32 \<Rightarrow> 'h bcm2835_host" where
  "bcm2835_mmc_set_clock d host target =
     (let host = host\<lparr>actual_clock := 0\<rparr>;
          host = bcm2835_mmc_writew d host 0 SDHCI_CLOCK_CONTROL
      in if target = 0 then host
         else
           let real_div = clock_divisor (max_clk host) target;
               dv = (word_of_nat (real_div div 2) :: u32);
               host = (if real_div \<noteq> 0
                       then host\<lparr>actual_clock := (max_clk host * 1) div word_of_nat real_div\<rparr>
                       else host);
               clk = (ucast (push_bit SDHCI_DIVIDER_SHIFT (dv AND SDHCI_DIV_MASK)) :: u16);
               clk = clk OR ucast (push_bit SDHCI_DIVIDER_HI_SHIFT
                                     (drop_bit SDHCI_DIV_MASK_LEN (dv AND SDHCI_DIV_HI_MASK)));
               clk = clk OR SDHCI_CLOCK_INT_EN;
               host = bcm2835_mmc_writew d host clk SDHCI_CLOCK_CONTROL;
               (r, host) = clock_wait d host 20
           in case r of
                None \<Rightarrow> bcm2835_mmc_dumpregs d host
              | Some (timeout, clk) \<Rightarrow>
                  let host = (if 20 - timeout > 10 \<and> int (20 - timeout) > ulong (max_delay host)
                              then host\<lparr>max_delay := int (20 - timeout)\<rparr> else host)
                  in bcm2835_mmc_writew d host (clk OR SDHCI_CLOCK_CARD_EN) SDHCI_CLOCK_CONTROL)"

subsection \<open>Objects of the current request\<close>

fun get_cmd :: "mmc_request \<Rightarrow> cmd_ref \<Rightarrow> mmc_command option" where
  "get_cmd r SBC = sbc r"
| "get_cmd r CMD = Some (mrq_cmd r)"
| "get_cmd r STOP = (case mrq_data r of None \<Rightarrow> None | Some dt \<Rightarrow> stop dt)"

fun map_cmd :: "cmd_ref \<Rightarrow> (mmc_command \<Rightarrow> mmc_command) \<Rightarrow> mmc_request \<Rightarrow> mmc_request" where
  "map_cmd SBC f r = r\<lparr>sbc := map_option f (sbc r)\<rparr>"
| "map_cmd CMD f r = r\<lparr>mrq_cmd := f (mrq_cmd r)\<rparr>"
| "map_cmd STOP f r =
     r\<lparr>mrq_data := map_option (\<lambda>dt. dt\<lparr>stop := map_option f (stop dt)\<rparr>) (mrq_data r)\<rparr>"

text \<open>\<open>cmd->data\<close>: only the main command carries the data.\<close>

definition cmd_data :: "mmc_request \<Rightarrow> cmd_ref \<Rightarrow> mmc_data option" where
  "cmd_data r cref = (if cref = CMD then mrq_data r else None)"

definition cmd_obj :: "'h bcm2835_host \<Rightarrow> cmd_ref \<Rightarrow> mmc_command option" where
  "cmd_obj host cref = (case mrq host of None \<Rightarrow> None | Some r \<Rightarrow> get_cmd r cref)"

definition upd_cmd ::
  "cmd_ref \<Rightarrow> (mmc_command \<Rightarrow> mmc_command) \<Rightarrow> 'h bcm2835_host \<Rightarrow> 'h bcm2835_host" where
  "upd_cmd cref f host = host\<lparr>mrq := map_option (map_cmd cref f) (mrq host)\<rparr>"

text \<open>The object \<open>host->data\<close> points to.\<close>

definition host_data :: "'h bcm2835_host \<Rightarrow> mmc_data option" where
  "host_data host =
     (case data host of
        None \<Rightarrow> None
      | Some MRQ_DATA \<Rightarrow> (case mrq host of None \<Rightarrow> None | Some r \<Rightarrow> mrq_data r))"

definition upd_data :: "(mmc_data \<Rightarrow> mmc_data) \<Rightarrow> 'h bcm2835_host \<Rightarrow> 'h bcm2835_host" where
  "upd_data f host =
     host\<lparr>mrq := map_option (\<lambda>r. r\<lparr>mrq_data := map_option f (mrq_data r)\<rparr>) (mrq host)\<rparr>"

definition tasklet_schedule :: "'h bcm2835_host \<Rightarrow> 'h bcm2835_host" where
  "tasklet_schedule host = host\<lparr>trace := trace host @ [TaskletSchedule]\<rparr>"

definition mod_timer :: "'h bcm2835_host \<Rightarrow> nat \<Rightarrow> 'h bcm2835_host" where
  "mod_timer host expires = host\<lparr>trace := trace host @ [ModTimer expires]\<rparr>"

subsection \<open>PIO backend\<close>

definition sg_miter_start :: "u8 list list \<Rightarrow> sg_mapping_iter" where
  "sg_miter_start regions = \<lparr>sg_done = [], sg_todo = regions\<rparr>"

definition sg_miter_next :: "sg_mapping_iter \<Rightarrow> u8 list option" where
  "sg_miter_next m = (case sg_todo m of [] \<Rightarrow> None | r # rs \<Rightarrow> Some r)"

text \<open>
  \<open>sg_miter.consumed = len\<close>: the first \<open>len\<close> bytes of the current region are
  passed, and \<open>bs\<close> is what they hold after the access; the next call of
  \<open>sg_miter_next\<close> hands out the rest of the region, or the next region.
\<close>

definition sg_miter_consume :: "sg_mapping_iter \<Rightarrow> u8 list \<Rightarrow> sg_mapping_iter" where
  "sg_miter_consume m bs =
     (case sg_todo m of
        [] \<Rightarrow> m
      | r # rs \<Rightarrow>
          m\<lparr>sg_done := sg_done m @ [bs],
            sg_todo := (if length bs < length r then drop (length bs) r # rs else rs)\<rparr>)"

text \<open>
  The inner loop of \<open>bcm2835_bcm2835_mmc_read_block_pio\<close>, \<open>while (len) { ... }\<close>:
  the bytes stored through \<open>buf\<close>, and \<open>scratch\<close> and \<open>chunk\<close> at the end.
\<close>

fun read_bytes ::
  "'h device \<Rightarrow> 'h bcm2835_host \<Rightarrow> nat \<Rightarrow> u32 \<Rightarrow> nat \<Rightarrow>
     u8 list \<times> u32 \<times> nat \<times> 'h bcm2835_host" where
  "read_bytes d host 0 scratch chunk = ([], scratch, chunk, host)"
| "read_bytes d host (Suc len) scratch chunk =
     (let (scratch, chunk, host) =
            (if chunk = 0
             then (let (v, host) = bcm2835_mmc_readl d host SDHCI_BUFFER in (v, 4, host))
             else (scratch, chunk, host));
          b = (ucast (scratch AND 0xFF) :: u8);
          (bs, scratch', chunk', host') = read_bytes d host len (drop_bit 8 scratch) (chunk - 1)
      in (b # bs, scratch', chunk', host'))"

lemma read_bytes_sg_miter:
  "read_bytes d host len scratch chunk = (bs, scratch', chunk', host') \<Longrightarrow>
   sg_miter host' = sg_miter host \<and> blocks host' = blocks host"
proof (induction len arbitrary: host scratch chunk bs)
  case 0
  then show ?case by simp
next
  case (Suc len)
  then show ?case
    by (auto simp: bcm2835_mmc_readl_def readl_def Let_def split: prod.splits if_splits)
qed

text \<open>The outer loop, \<open>while (blksize) { ... }\<close>; \<open>None\<close> is the \<open>BUG()\<close>.\<close>

function read_block_loop ::
  "'h device \<Rightarrow> 'h bcm2835_host \<Rightarrow> nat \<Rightarrow> u32 \<Rightarrow> nat \<Rightarrow> 'h bcm2835_host option" where
  "read_block_loop d host blksize scratch chunk =
     (if blksize = 0 then Some host
      else case sg_miter_next (sg_miter host) of
             None \<Rightarrow> None
           | Some buf \<Rightarrow>
               (let len = min (length buf) blksize;
                    r = read_bytes d host len scratch chunk;
                    host' = snd (snd (snd r))
                in read_block_loop d
                     (host'\<lparr>sg_miter := sg_miter_consume (sg_miter host') (fst r)\<rparr>)
                     (blksize - len) (fst (snd r)) (fst (snd (snd r)))))"
  by pat_completeness auto
termination
proof (relation "measure (\<lambda>(d, host, blksize, scratch, chunk).
                    blksize + length (sg_todo (sg_miter host)))", goal_cases)
  case 1
  then show ?case by simp
next
  case (2 d host blksize scratch chunk buf len r host')
  obtain bs s c h where r: "read_bytes d host len scratch chunk = (bs, s, c, h)"
    by (cases "read_bytes d host len scratch chunk") auto
  have len_bs: "length bs = len"
    using r by (induction len arbitrary: host scratch chunk bs s c h)
      (auto simp: Let_def split: prod.splits if_splits)
  from read_bytes_sg_miter[OF r] have m: "sg_miter h = sg_miter host" by simp
  from 2 r m len_bs show ?case
    by (cases "sg_todo (sg_miter host)")
      (auto simp: sg_miter_next_def sg_miter_consume_def min_def split: if_splits)
qed

declare read_block_loop.simps [simp del]

definition bcm2835_bcm2835_mmc_read_block_pio ::
  "'h device \<Rightarrow> 'h bcm2835_host \<Rightarrow> 'h bcm2835_host option" where
  "bcm2835_bcm2835_mmc_read_block_pio d host =
     (case host_data host of
        None \<Rightarrow> None
      | Some dt \<Rightarrow> read_block_loop d host (unat (blksz dt)) 0 0)"

text \<open>
  The inner loop of \<open>bcm2835_bcm2835_mmc_write_block_pio\<close> over the bytes at \<open>buf\<close>;
  \<open>blksize\<close> is what is left of the block after this region.
\<close>

fun write_bytes ::
  "'h device \<Rightarrow> 'h bcm2835_host \<Rightarrow> u8 list \<Rightarrow> nat \<Rightarrow> u32 \<Rightarrow> nat \<Rightarrow>
     u32 \<times> nat \<times> 'h bcm2835_host" where
  "write_bytes d host [] blksize scratch chunk = (scratch, chunk, host)"
| "write_bytes d host (b # buf) blksize scratch chunk =
     (let scratch = scratch OR push_bit (chunk * 8) (ucast b);
          chunk = chunk + 1
      in if chunk = 4 \<or> (length buf = 0 \<and> blksize = 0)
         then write_bytes d (mmc_raw_writel d host scratch SDHCI_BUFFER) buf blksize 0 0
         else write_bytes d host buf blksize scratch chunk)"

lemma write_bytes_sg_miter:
  "write_bytes d host buf blksize scratch chunk = (scratch', chunk', host') \<Longrightarrow>
   sg_miter host' = sg_miter host \<and> blocks host' = blocks host"
proof (induction buf arbitrary: host scratch chunk)
  case Nil
  then show ?case by simp
next
  case (Cons b buf)
  then show ?case
    by (auto simp: mmc_raw_writel_def writel_def udelay_def Let_def split: if_splits)
qed

function write_block_loop ::
  "'h device \<Rightarrow> 'h bcm2835_host \<Rightarrow> nat \<Rightarrow> u32 \<Rightarrow> nat \<Rightarrow> 'h bcm2835_host option" where
  "write_block_loop d host blksize scratch chunk =
     (if blksize = 0 then Some host
      else case sg_miter_next (sg_miter host) of
             None \<Rightarrow> None
           | Some buf \<Rightarrow>
               (let len = min (length buf) blksize;
                    r = write_bytes d host (take len buf) (blksize - len) scratch chunk;
                    host' = snd (snd r)
                in write_block_loop d
                     (host'\<lparr>sg_miter := sg_miter_consume (sg_miter host') (take len buf)\<rparr>)
                     (blksize - len) (fst r) (fst (snd r))))"
  by pat_completeness auto
termination
proof (relation "measure (\<lambda>(d, host, blksize, scratch, chunk).
                    blksize + length (sg_todo (sg_miter host)))", goal_cases)
  case 1
  then show ?case by simp
next
  case (2 d host blksize scratch chunk buf len r host')
  obtain s c h where r: "write_bytes d host (take len buf) (blksize - len) scratch chunk = (s, c, h)"
    by (cases "write_bytes d host (take len buf) (blksize - len) scratch chunk") auto
  from write_bytes_sg_miter[OF r] have m: "sg_miter h = sg_miter host" by simp
  from 2 r m show ?case
    by (cases "sg_todo (sg_miter host)")
      (auto simp: sg_miter_next_def sg_miter_consume_def min_def split: if_splits)
qed

declare write_block_loop.simps [simp del]

definition bcm2835_bcm2835_mmc_write_block_pio ::
  "'h device \<Rightarrow> 'h bcm2835_host \<Rightarrow> 'h bcm2835_host option" where
  "bcm2835_bcm2835_mmc_write_block_pio d host =
     (case host_data host of
        None \<Rightarrow> None
      | Some dt \<Rightarrow> write_block_loop d host (unat (blksz dt)) 0 0)"

lemma read_block_loop_blocks:
  "read_block_loop d host blksize scratch chunk = Some host' \<Longrightarrow> blocks host' = blocks host"
proof (induction d host blksize scratch chunk rule: read_block_loop.induct)
  case (1 d host blksize scratch chunk)
  show ?case
  proof (cases "blksize = 0")
    case True
    with "1.prems" show ?thesis by (simp add: read_block_loop.simps)
  next
    case False
    then obtain buf where buf: "sg_miter_next (sg_miter host) = Some buf"
      using "1.prems"
      by (cases "sg_miter_next (sg_miter host)") (auto simp: read_block_loop.simps[of d host])
    obtain bs s c h where
      r: "read_bytes d host (min (length buf) blksize) scratch chunk = (bs, s, c, h)"
      by (cases "read_bytes d host (min (length buf) blksize) scratch chunk") auto
    from "1.prems" False buf r have
      "read_block_loop d (h\<lparr>sg_miter := sg_miter_consume (sg_miter h) bs\<rparr>)
         (blksize - min (length buf) blksize) s c = Some host'"
      by (simp add: Let_def read_block_loop.simps[of d host])
    from "1.IH"[OF False buf refl refl refl, unfolded r, simplified, OF this]
    show ?thesis using read_bytes_sg_miter[OF r] by simp
  qed
qed

lemma write_block_loop_blocks:
  "write_block_loop d host blksize scratch chunk = Some host' \<Longrightarrow> blocks host' = blocks host"
proof (induction d host blksize scratch chunk rule: write_block_loop.induct)
  case (1 d host blksize scratch chunk)
  show ?case
  proof (cases "blksize = 0")
    case True
    with "1.prems" show ?thesis by (simp add: write_block_loop.simps)
  next
    case False
    then obtain buf where buf: "sg_miter_next (sg_miter host) = Some buf"
      using "1.prems"
      by (cases "sg_miter_next (sg_miter host)") (auto simp: write_block_loop.simps[of d host])
    define len where "len = min (length buf) blksize"
    obtain s c h where
      r: "write_bytes d host (take len buf) (blksize - len) scratch chunk = (s, c, h)"
      by (cases "write_bytes d host (take len buf) (blksize - len) scratch chunk") auto
    from "1.prems" False buf r have
      "write_block_loop d (h\<lparr>sg_miter := sg_miter_consume (sg_miter h) (take len buf)\<rparr>)
         (blksize - len) s c = Some host'"
      by (simp add: Let_def len_def write_block_loop.simps[of d host])
    from "1.IH"[OF False buf len_def[symmetric, THEN sym] refl refl, unfolded r, simplified, OF this]
    show ?thesis using write_bytes_sg_miter[OF r] by simp
  qed
qed

text \<open>
  The loop of \<open>bcm2835_mmc_transfer_pio\<close>. The test \<open>blocks host = 0\<close> at its head is
  both the early return of the function and the \<open>break\<close> after the decrement: neither
  reads the present-state register again.
\<close>

function transfer_pio_loop :: "'h device \<Rightarrow> 'h bcm2835_host \<Rightarrow> 'h bcm2835_host option" where
  "transfer_pio_loop d host =
     (if blocks host = 0 then Some host
      else case host_data host of
             None \<Rightarrow> None
           | Some dt \<Rightarrow>
               (let msk = (if data_flags dt AND MMC_DATA_READ \<noteq> 0 then SDHCI_DATA_AVAILABLE
                           else SDHCI_SPACE_AVAILABLE);
                    r = bcm2835_mmc_readl d host SDHCI_PRESENT_STATE
                in if fst r AND msk = 0 then Some (snd r)
                   else case (if data_flags dt AND MMC_DATA_READ \<noteq> 0
                              then bcm2835_bcm2835_mmc_read_block_pio d (snd r)
                              else bcm2835_bcm2835_mmc_write_block_pio d (snd r)) of
                          None \<Rightarrow> None
                        | Some host' \<Rightarrow> transfer_pio_loop d (host'\<lparr>blocks := blocks host' - 1\<rparr>)))"
  by pat_completeness auto
termination
proof (relation "measure (\<lambda>(d, host). unat (blocks host))", goal_cases)
  case 1
  then show ?case by simp
next
  case (2 d host dt msk r host')
  have "blocks (snd r) = blocks host"
    using 2 by (auto simp: bcm2835_mmc_readl_def readl_def split: prod.splits)
  moreover have "blocks host' = blocks (snd r)"
    using 2 read_block_loop_blocks write_block_loop_blocks
    by (auto simp: bcm2835_bcm2835_mmc_read_block_pio_def
        bcm2835_bcm2835_mmc_write_block_pio_def split: if_splits option.splits)
  ultimately have "blocks host' = blocks host" by simp
  moreover have "unat (blocks host - 1) < unat (blocks host)"
    using 2 by (simp add: unat_minus_one unat_gt_0)
  ultimately show ?case by simp
qed

declare transfer_pio_loop.simps [simp del]

definition bcm2835_mmc_transfer_pio ::
  "'h device \<Rightarrow> 'h bcm2835_host \<Rightarrow> 'h bcm2835_host option" where
  "bcm2835_mmc_transfer_pio d host =
     (if data host = None then None else transfer_pio_loop d host)"

subsection \<open>DMA backend\<close>

definition bcm2835_mmc_transfer_dma ::
  "'h device \<Rightarrow> 'h bcm2835_host \<Rightarrow> 'h bcm2835_host option" where
  "bcm2835_mmc_transfer_dma d host =
     (case host_data host of
        None \<Rightarrow> Some host
      | Some dt \<Rightarrow>
          if blocks host = 0 then Some host
          else if \<not> have_dma host then None
          else
            let dir_data = (if data_flags dt AND MMC_DATA_READ \<noteq> 0 then DMA_FROM_DEVICE
                            else DMA_TO_DEVICE);
                (desc, hw') = dev_dma_prep d (hw host) dir_data;
                host = host\<lparr>hw := hw', trace := trace host @ [DmaMapSg dir_data]\<rparr>
            in if desc
               then let host = bcm2835_mmc_unsignal_irqs d host
                                 (SDHCI_INT_DATA_AVAIL OR SDHCI_INT_SPACE_AVAIL)
                    in Some (host\<lparr>trace := trace host @ [DmaSubmit, DmaIssuePending]\<rparr>)
               else Some host)"

subsection \<open>Preparing a transfer\<close>

text \<open>The build configuration: \<open>CONFIG_MMC_BCM2835_PIO_DMA_BARRIER\<close> (0 when unset),
  \<open>CONFIG_ARCH_BCM2835\<close> and the timer frequency \<open>HZ\<close>.\<close>

record config =
  PIO_DMA_BARRIER :: u32
  CONFIG_ARCH_BCM2835 :: bool
  HZ :: nat

definition bcm2835_mmc_set_transfer_irqs ::
  "'h device \<Rightarrow> 'h bcm2835_host \<Rightarrow> 'h bcm2835_host" where
  "bcm2835_mmc_set_transfer_irqs d host =
     (let pio_irqs = SDHCI_INT_DATA_AVAIL OR SDHCI_INT_SPACE_AVAIL;
          dma_irqs = SDHCI_INT_DMA_END OR SDHCI_INT_ADMA_ERROR;
          host = (if use_dma host then host\<lparr>ier := (ier host AND NOT pio_irqs) OR dma_irqs\<rparr>
                  else host\<lparr>ier := (ier host AND NOT dma_irqs) OR pio_irqs\<rparr>);
          host = bcm2835_mmc_writel d host (ier host) SDHCI_INT_ENABLE
      in bcm2835_mmc_writel d host (ier host) SDHCI_SIGNAL_ENABLE)"

definition bcm2835_mmc_prepare_data ::
  "config \<Rightarrow> 'h device \<Rightarrow> 'h bcm2835_host \<Rightarrow> cmd_ref \<Rightarrow> 'h bcm2835_host option" where
  "bcm2835_mmc_prepare_data cfg d host cref =
     do {
       r \<leftarrow> mrq host;
       c \<leftarrow> get_cmd r cref;
       let dat = cmd_data r cref;
       let host = (if dat \<noteq> None \<or> cmd_flags c AND MMC_RSP_BUSY \<noteq> 0
                   then bcm2835_mmc_writeb d host TIMEOUT_VAL SDHCI_TIMEOUT_CONTROL
                   else host);
       case dat of
         None \<Rightarrow> Some host
       | Some dt \<Rightarrow>
           if blksz dt * data_blocks dt > 524288 \<or> blksz dt > max_blk_size host \<or>
              data_blocks dt > 65535
           then None
           else do {
             let host = host\<lparr>data := Some MRQ_DATA, data_early := False\<rparr>;
             let host = upd_data (\<lambda>x. x\<lparr>bytes_xfered := 0\<rparr>) host;
             let host = (if flags host AND SDHCI_REQ_USE_DMA = 0
                         then host\<lparr>sg_miter := sg_miter_start (sg dt),
                                   blocks := data_blocks dt\<rparr>
                         else host);
             let host = host\<lparr>use_dma := (have_dma host \<and> data_blocks dt > PIO_DMA_BARRIER cfg)\<rparr>;
             let host = bcm2835_mmc_set_transfer_irqs d host;
             let host = bcm2835_mmc_writew d host
                          (ucast (SDHCI_MAKE_BLKSZ SDHCI_DEFAULT_BOUNDARY_ARG (blksz dt)))
                          SDHCI_BLOCK_SIZE;
             let host = bcm2835_mmc_writew d host (ucast (data_blocks dt)) SDHCI_BLOCK_COUNT;
             if data host = None then None else Some host
           }
     }"

definition bcm2835_mmc_set_transfer_mode ::
  "'h device \<Rightarrow> 'h bcm2835_host \<Rightarrow> cmd_ref \<Rightarrow> 'h bcm2835_host option" where
  "bcm2835_mmc_set_transfer_mode d host cref =
     do {
       r \<leftarrow> mrq host;
       c \<leftarrow> get_cmd r cref;
       case cmd_data r cref of
         None \<Rightarrow>
           (let (mode, host) = bcm2835_mmc_readw d host SDHCI_TRANSFER_MODE
            in Some (bcm2835_mmc_writew d host
                       (mode AND NOT (SDHCI_TRNS_AUTO_CMD12 OR SDHCI_TRNS_AUTO_CMD23))
                       SDHCI_TRANSFER_MODE))
       | Some dt \<Rightarrow>
           (let mode = SDHCI_TRNS_BLK_CNT_EN;
                (mode, host) =
                  (if mmc_op_multi (opcode c) \<or> data_blocks dt > 1
                   then (let mode = mode OR SDHCI_TRNS_MULTI
                         in if sbc r = None \<and> flags host AND SDHCI_AUTO_CMD12 \<noteq> 0
                            then (mode OR SDHCI_TRNS_AUTO_CMD12, host)
                            else (case sbc r of
                                    Some s \<Rightarrow>
                                      if flags host AND SDHCI_AUTO_CMD23 \<noteq> 0
                                      then (mode OR SDHCI_TRNS_AUTO_CMD23,
                                            bcm2835_mmc_writel d host (arg s) SDHCI_ARGUMENT2)
                                      else (mode, host)
                                  | None \<Rightarrow> (mode, host)))
                   else (mode, host));
                mode = (if data_flags dt AND MMC_DATA_READ \<noteq> 0 then mode OR SDHCI_TRNS_READ
                        else mode);
                mode = (if flags host AND SDHCI_REQ_USE_DMA \<noteq> 0 then mode OR SDHCI_TRNS_DMA
                        else mode)
            in Some (bcm2835_mmc_writew d host mode SDHCI_TRANSFER_MODE))
     }"

subsection \<open>Command dispatch\<close>

text \<open>
  The busy-poll of \<open>bcm2835_mmc_send_command\<close> on the inhibit bits: what is left of
  \<open>timeout\<close> when they are clear, \<open>None\<close> when the controller never released them.
\<close>

fun inhibit_wait ::
  "'h device \<Rightarrow> 'h bcm2835_host \<Rightarrow> u32 \<Rightarrow> nat \<Rightarrow> nat option \<times> 'h bcm2835_host" where
  "inhibit_wait d host msk timeout =
     (let (v, host) = bcm2835_mmc_readl d host SDHCI_PRESENT_STATE
      in if v AND msk = 0 then (Some timeout, host)
         else if timeout = 0 then (None, host)
         else inhibit_wait d (udelay d host 10) msk (timeout - 1))"

declare inhibit_wait.simps [simp del]

definition DIV_ROUND_UP :: "u32 \<Rightarrow> u32 \<Rightarrow> u32" where
  "DIV_ROUND_UP n k = (n + k - 1) div k"

text \<open>The mask of inhibit bits a command waits for.\<close>

definition inhibit_mask :: "mmc_request \<Rightarrow> cmd_ref \<Rightarrow> mmc_command \<Rightarrow> u32" where
  "inhibit_mask r cref c =
     (let msk = SDHCI_CMD_INHIBIT;
          msk = (if cmd_data r cref \<noteq> None \<or> cmd_flags c AND MMC_RSP_BUSY \<noteq> 0
                 then msk OR SDHCI_DATA_INHIBIT else msk)
      in if mrq_data r \<noteq> None \<and> cref = STOP then msk AND NOT SDHCI_DATA_INHIBIT else msk)"

text \<open>
  The timer is armed relative to \<open>jiffies\<close>; the trace keeps the distance. The distance
  for a long busy timeout is computed in \<open>unsigned int\<close>, as \<open>cmd->busy_timeout\<close> is, and
  wraps as that does.
\<close>

definition bcm2835_mmc_send_command ::
  "config \<Rightarrow> 'h device \<Rightarrow> 'h bcm2835_host \<Rightarrow> cmd_ref \<Rightarrow> 'h bcm2835_host option" where
  "bcm2835_mmc_send_command cfg d host cref =
     do {
       r \<leftarrow> mrq host;
       c \<leftarrow> get_cmd r cref;
       let msk = inhibit_mask r cref c;
       let (w, host) = inhibit_wait d host msk 1000;
       case w of
         None \<Rightarrow>
           (let host = bcm2835_mmc_dumpregs d host;
                host = upd_cmd cref (\<lambda>x. x\<lparr>cmd_error := - EIO\<rparr>) host
            in Some (tasklet_schedule host))
       | Some timeout \<Rightarrow>
           do {
             let host = (if (1000 - timeout) div 100 > 1 \<and>
                            int ((1000 - timeout) div 100) > ulong (max_delay host)
                         then host\<lparr>max_delay := int ((1000 - timeout) div 100)\<rparr>
                         else host);
             let expires = (if CONFIG_ARCH_BCM2835 cfg \<and> cmd_data r cref = None \<and>
                               busy_timeout c > 9000
                            then unat (DIV_ROUND_UP (busy_timeout c) 1000 * word_of_nat (HZ cfg) +
                                       (word_of_nat (HZ cfg) :: u32))
                            else 10 * HZ cfg);
             let host = mod_timer host expires;
             let host = host\<lparr>cmd := Some cref\<rparr>;
             host \<leftarrow> bcm2835_mmc_prepare_data cfg d host cref;
             let host = bcm2835_mmc_writel d host (arg c) SDHCI_ARGUMENT;
             host \<leftarrow> bcm2835_mmc_set_transfer_mode d host cref;
             if cmd_flags c AND MMC_RSP_136 \<noteq> 0 \<and> cmd_flags c AND MMC_RSP_BUSY \<noteq> 0
             then Some (tasklet_schedule (upd_cmd cref (\<lambda>x. x\<lparr>cmd_error := - EINVAL\<rparr>) host))
             else
               let fl = (if cmd_flags c AND MMC_RSP_PRESENT = 0 then SDHCI_CMD_RESP_NONE
                         else if cmd_flags c AND MMC_RSP_136 \<noteq> 0 then SDHCI_CMD_RESP_LONG
                         else if cmd_flags c AND MMC_RSP_BUSY \<noteq> 0 then SDHCI_CMD_RESP_SHORT_BUSY
                         else SDHCI_CMD_RESP_SHORT);
                   fl = (if cmd_flags c AND MMC_RSP_CRC \<noteq> 0 then fl OR SDHCI_CMD_CRC else fl);
                   fl = (if cmd_flags c AND MMC_RSP_OPCODE \<noteq> 0 then fl OR SDHCI_CMD_INDEX
                         else fl);
                   fl = (if cmd_data r cref \<noteq> None then fl OR SDHCI_CMD_DATA else fl)
               in Some (bcm2835_mmc_writew d host (ucast (SDHCI_MAKE_CMD (opcode c) fl))
                          SDHCI_COMMAND)
           }
     }"

subsection \<open>Completion of data and command\<close>

definition bcm2835_mmc_finish_data ::
  "config \<Rightarrow> 'h device \<Rightarrow> 'h bcm2835_host \<Rightarrow> 'h bcm2835_host option" where
  "bcm2835_mmc_finish_data cfg d host =
     do {
       dt \<leftarrow> host_data host;
       r \<leftarrow> mrq host;
       let host = host\<lparr>data := None\<rparr>;
       let host = upd_data (\<lambda>x. x\<lparr>bytes_xfered :=
                     (if data_error x \<noteq> 0 then 0 else blksz x * data_blocks x)\<rparr>) host;
       if stop dt \<noteq> None \<and> (data_error dt \<noteq> 0 \<or> sbc r = None)
       then
         let host = (if data_error dt \<noteq> 0
                     then bcm2835_mmc_reset d (bcm2835_mmc_reset d host SDHCI_RESET_CMD)
                            SDHCI_RESET_DATA
                     else host)
         in bcm2835_mmc_send_command cfg d host STOP
       else Some (tasklet_schedule host)
     }"

text \<open>
  The loop of \<open>bcm2835_mmc_finish_command\<close> over the four words of a long response,
  from \<open>i\<close> up to 3.
\<close>

fun finish_command_resp ::
  "'h device \<Rightarrow> 'h bcm2835_host \<Rightarrow> (nat \<Rightarrow> u32) \<Rightarrow> nat \<Rightarrow> nat \<Rightarrow>
     (nat \<Rightarrow> u32) \<times> 'h bcm2835_host" where
  "finish_command_resp d host rsp i 0 = (rsp, host)"
| "finish_command_resp d host rsp i (Suc n) =
     (let (v, host) = bcm2835_mmc_readl d host (SDHCI_RESPONSE + (3 - int i) * 4);
          w = push_bit 8 v;
          (w, host) =
            (if i \<noteq> 3
             then (let (b, host) = bcm2835_mmc_readb d host (SDHCI_RESPONSE + (3 - int i) * 4 - 1)
                   in (w OR ucast b, host))
             else (w, host))
      in finish_command_resp d host (rsp(i := w)) (Suc i) n)"

definition bcm2835_mmc_finish_command ::
  "config \<Rightarrow> 'h device \<Rightarrow> 'h bcm2835_host \<Rightarrow> 'h bcm2835_host option" where
  "bcm2835_mmc_finish_command cfg d host =
     do {
       cref \<leftarrow> cmd host;
       c \<leftarrow> cmd_obj host cref;
       let (rsp, host) =
             (if cmd_flags c AND MMC_RSP_PRESENT \<noteq> 0
              then (if cmd_flags c AND MMC_RSP_136 \<noteq> 0
                    then finish_command_resp d host (resp c) 0 4
                    else (let (v, host) = bcm2835_mmc_readl d host SDHCI_RESPONSE
                          in ((resp c)(0 := v), host)))
              else (resp c, host));
       let host = upd_cmd cref (\<lambda>x. x\<lparr>resp := rsp, cmd_error := 0\<rparr>) host;
       if cref = SBC
       then do {
         let host = host\<lparr>cmd := None\<rparr>;
         host \<leftarrow> bcm2835_mmc_send_command cfg d host CMD;
         r \<leftarrow> mrq host;
         if mrq_data r \<noteq> None \<and> use_dma host then bcm2835_mmc_transfer_dma d host
         else Some host
       }
       else do {
         host \<leftarrow> (if data host \<noteq> None \<and> data_early host
                   then bcm2835_mmc_finish_data cfg d host else Some host);
         cref' \<leftarrow> cmd host;
         r \<leftarrow> mrq host;
         c' \<leftarrow> get_cmd r cref';
         let host = (if cmd_data r cref' = None then tasklet_schedule host else host);
         Some (host\<lparr>cmd := None\<rparr>)
       }
     }"

subsection \<open>Timeout watchdog\<close>

definition bcm2835_mmc_timeout_timer ::
  "config \<Rightarrow> 'h device \<Rightarrow> 'h bcm2835_host \<Rightarrow> 'h bcm2835_host option" where
  "bcm2835_mmc_timeout_timer cfg d host =
     (case mrq host of
        None \<Rightarrow> Some host
      | Some r \<Rightarrow>
          let host = bcm2835_mmc_dumpregs d host
          in if data host \<noteq> None
             then bcm2835_mmc_finish_data cfg d
                    (upd_data (\<lambda>x. x\<lparr>data_error := - ETIMEDOUT\<rparr>) host)
             else
               let host = (case cmd host of
                             Some cref \<Rightarrow> upd_cmd cref (\<lambda>x. x\<lparr>cmd_error := - ETIMEDOUT\<rparr>) host
                           | None \<Rightarrow> upd_cmd CMD (\<lambda>x. x\<lparr>cmd_error := - ETIMEDOUT\<rparr>) host)
               in Some (tasklet_schedule host))"

subsection \<open>Interrupt dispatcher\<close>

definition bcm2835_mmc_enable_sdio_irq_nolock ::
  "'h device \<Rightarrow> 'h bcm2835_host \<Rightarrow> bool \<Rightarrow> 'h bcm2835_host" where
  "bcm2835_mmc_enable_sdio_irq_nolock d host enable =
     (if flags host AND SDHCI_DEVICE_DEAD = 0
      then let host = (if enable then host\<lparr>ier := ier host OR SDHCI_INT_CARD_INT\<rparr>
                       else host\<lparr>ier := ier host AND NOT SDHCI_INT_CARD_INT\<rparr>);
               host = bcm2835_mmc_writel d host (ier host) SDHCI_INT_ENABLE
           in bcm2835_mmc_writel d host (ier host) SDHCI_SIGNAL_ENABLE
      else host)"

definition bcm2835_mmc_cmd_irq ::
  "config \<Rightarrow> 'h device \<Rightarrow> 'h bcm2835_host \<Rightarrow> u32 \<Rightarrow> 'h bcm2835_host option" where
  "bcm2835_mmc_cmd_irq cfg d host intmask =
     (if intmask = 0 then None
      else case cmd host of
             None \<Rightarrow> Some (bcm2835_mmc_dumpregs d host)
           | Some cref \<Rightarrow>
               do {
                 let host = (if intmask AND SDHCI_INT_TIMEOUT \<noteq> 0
                             then upd_cmd cref (\<lambda>x. x\<lparr>cmd_error := - ETIMEDOUT\<rparr>) host
                             else if intmask AND (SDHCI_INT_CRC OR SDHCI_INT_END_BIT OR
                                                  SDHCI_INT_INDEX) \<noteq> 0
                             then upd_cmd cref (\<lambda>x. x\<lparr>cmd_error := - EILSEQ\<rparr>) host
                             else host);
                 c \<leftarrow> cmd_obj host cref;
                 if cmd_error c \<noteq> 0 then Some (tasklet_schedule host)
                 else if intmask AND SDHCI_INT_RESPONSE \<noteq> 0
                 then bcm2835_mmc_finish_command cfg d host
                 else Some host
               })"

definition dma_unmap_sg :: "'h bcm2835_host \<Rightarrow> dma_dir \<Rightarrow> 'h bcm2835_host" where
  "dma_unmap_sg host dir = host\<lparr>trace := trace host @ [DmaUnmapSg dir]\<rparr>"

definition bcm2835_mmc_data_irq ::
  "config \<Rightarrow> 'h device \<Rightarrow> 'h bcm2835_host \<Rightarrow> u32 \<Rightarrow> 'h bcm2835_host option" where
  "bcm2835_mmc_data_irq cfg d host intmask =
     (if intmask = 0 then None
      else case data host of
             None \<Rightarrow>
               (case cmd host of
                  None \<Rightarrow> Some (bcm2835_mmc_dumpregs d host)
                | Some cref \<Rightarrow>
                    do {
                      c \<leftarrow> cmd_obj host cref;
                      if cmd_flags c AND MMC_RSP_BUSY \<noteq> 0 \<and> intmask AND SDHCI_INT_DATA_END \<noteq> 0
                      then bcm2835_mmc_finish_command cfg d host
                      else Some (bcm2835_mmc_dumpregs d host)
                    })
           | Some dref \<Rightarrow>
               do {
                 dt \<leftarrow> host_data host;
                 let host =
                       (if intmask AND SDHCI_INT_DATA_TIMEOUT \<noteq> 0
                        then upd_data (\<lambda>x. x\<lparr>data_error := - ETIMEDOUT\<rparr>) host
                        else if intmask AND SDHCI_INT_DATA_END_BIT \<noteq> 0
                        then upd_data (\<lambda>x. x\<lparr>data_error := - EILSEQ\<rparr>) host
                        else if intmask AND SDHCI_INT_DATA_CRC \<noteq> 0
                        then (let (w, host) = bcm2835_mmc_readw d host SDHCI_COMMAND
                              in if SDHCI_GET_CMD w \<noteq> MMC_BUS_TEST_R
                                 then upd_data (\<lambda>x. x\<lparr>data_error := - EILSEQ\<rparr>) host
                                 else host)
                        else host);
                 dt \<leftarrow> host_data host;
                 if use_dma host
                 then (if data_flags dt AND MMC_DATA_WRITE \<noteq> 0
                       then bcm2835_mmc_finish_data cfg d (dma_unmap_sg host DMA_TO_DEVICE)
                       else Some host)
                 else if data_error dt \<noteq> 0 then bcm2835_mmc_finish_data cfg d host
                 else do {
                   host \<leftarrow> (if intmask AND (SDHCI_INT_DATA_AVAIL OR SDHCI_INT_SPACE_AVAIL) \<noteq> 0
                             then bcm2835_mmc_transfer_pio d host else Some host);
                   if intmask AND SDHCI_INT_DATA_END \<noteq> 0
                   then (if cmd host \<noteq> None then Some (host\<lparr>data_early := True\<rparr>)
                         else bcm2835_mmc_finish_data cfg d host)
                   else Some host
                 }
               })"

datatype irqreturn_t = IRQ_NONE | IRQ_HANDLED | IRQ_WAKE_THREAD

text \<open>
  One pass through the body of the \<open>do { ... } while\<close> loop of \<open>bcm2835_mmc_irq\<close>, up
  to the re-read of the status: the host, \<open>unexpected\<close>, \<open>result\<close> and \<open>cardint\<close>
  after it.
\<close>

definition irq_body ::
  "config \<Rightarrow> 'h device \<Rightarrow> 'h bcm2835_host \<Rightarrow> u32 \<Rightarrow> u32 \<Rightarrow> irqreturn_t \<Rightarrow> bool \<Rightarrow>
     ('h bcm2835_host \<times> u32 \<times> irqreturn_t \<times> bool) option" where
  "irq_body cfg d host intmask unexpected result cardint =
     do {
       let msk = intmask AND (SDHCI_INT_CMD_MASK OR SDHCI_INT_DATA_MASK OR SDHCI_INT_BUS_POWER);
       let host = bcm2835_mmc_writel d host msk SDHCI_INT_STATUS;
       host \<leftarrow> (if intmask AND SDHCI_INT_CMD_MASK \<noteq> 0
                 then bcm2835_mmc_cmd_irq cfg d host (intmask AND SDHCI_INT_CMD_MASK)
                 else Some host);
       host \<leftarrow> (if intmask AND SDHCI_INT_DATA_MASK \<noteq> 0
                 then bcm2835_mmc_data_irq cfg d host (intmask AND SDHCI_INT_DATA_MASK)
                 else Some host);
       let (host, result, cardint) =
             (if intmask AND SDHCI_INT_CARD_INT \<noteq> 0
              then (if CONFIG_ARCH_BCM2835 cfg
                    then (let host = bcm2835_mmc_enable_sdio_irq_nolock d host False
                          in (host\<lparr>thread_isr := thread_isr host OR SDHCI_INT_CARD_INT\<rparr>,
                              IRQ_WAKE_THREAD, cardint))
                    else (host, result, True))
              else (host, result, cardint));
       let intmask = intmask AND NOT (SDHCI_INT_CARD_INSERT OR SDHCI_INT_CARD_REMOVE OR
                       SDHCI_INT_CMD_MASK OR SDHCI_INT_DATA_MASK OR SDHCI_INT_ERROR OR
                       SDHCI_INT_BUS_POWER OR SDHCI_INT_CARD_INT);
       let (host, unexpected) =
             (if intmask \<noteq> 0
              then (bcm2835_mmc_writel d host intmask SDHCI_INT_STATUS, unexpected OR intmask)
              else (host, unexpected));
       let result = (if result = IRQ_NONE then IRQ_HANDLED else result);
       Some (host, unexpected, result, cardint)
     }"

text \<open>
  The loop, entered with \<open>max_loops = 16\<close>; \<open>while (intmask && --max_loops)\<close> goes
  round again when the status read is not zero and the decremented counter is not zero.
  The first component of the result counts the passes through the body (it is not a
  variable of the driver); the second is \<open>None\<close> when a handler hit a \<open>BUG_ON\<close>.
\<close>

function irq_loop ::
  "config \<Rightarrow> 'h device \<Rightarrow> 'h bcm2835_host \<Rightarrow> u32 \<Rightarrow> u32 \<Rightarrow> irqreturn_t \<Rightarrow> bool \<Rightarrow> nat \<Rightarrow>
     nat \<times> ('h bcm2835_host \<times> u32 \<times> irqreturn_t \<times> bool) option" where
  "irq_loop cfg d host intmask unexpected result cardint max_loops =
     (case irq_body cfg d host intmask unexpected result cardint of
        None \<Rightarrow> (1, None)
      | Some (host, unexpected, result, cardint) \<Rightarrow>
          (let r = bcm2835_mmc_readl d host SDHCI_INT_STATUS
           in if fst r \<noteq> 0 \<and> max_loops - 1 \<noteq> 0
              then (let (n, res) = irq_loop cfg d (snd r) (fst r) unexpected result cardint
                                     (max_loops - 1)
                    in (Suc n, res))
              else (1, Some (snd r, unexpected, result, cardint))))"
  by pat_completeness auto
termination
  by (relation "measure (\<lambda>(cfg, d, host, intmask, unexpected, result, cardint, max_loops).
                   max_loops)") auto

declare irq_loop.simps [simp del]

definition mmc_signal_sdio_irq :: "'h bcm2835_host \<Rightarrow> 'h bcm2835_host" where
  "mmc_signal_sdio_irq host = host\<lparr>trace := trace host @ [SdioIrq]\<rparr>"

text \<open>
  \<open>bcm2835_mmc_irq\<close>: the number of passes through the loop body, and the return value
  with the host after it.
\<close>

definition bcm2835_mmc_irq ::
  "config \<Rightarrow> 'h device \<Rightarrow> 'h bcm2835_host \<Rightarrow> nat \<times> (irqreturn_t \<times> 'h bcm2835_host) option" where
  "bcm2835_mmc_irq cfg d host =
     (let (intmask, host) = bcm2835_mmc_readl d host SDHCI_INT_STATUS
      in if intmask = 0 \<or> intmask = 0xffffffff then (0, Some (IRQ_NONE, host))
         else
           let (n, res) = irq_loop cfg d host intmask 0 IRQ_NONE False 16
           in (n, case res of
                    None \<Rightarrow> None
                  | Some (host, unexpected, result, cardint) \<Rightarrow>
                      let host = (if unexpected \<noteq> 0 then bcm2835_mmc_dumpregs d host else host);
                          host = (if \<not> CONFIG_ARCH_BCM2835 cfg \<and> cardint
                                  then mmc_signal_sdio_irq host else host)
                      in Some (result, host)))"

subsection \<open>Devices and requests for concrete runs\<close>

text \<open>
  A register file that keeps what is written to it, a device that answers every read
  with the same word, and a FIFO behind the buffer register: writes to
  \<open>SDHCI_BUFFER\<close> queue a word, reads of it take the oldest one (0 when there is none).
\<close>

definition mem_device :: "(int \<Rightarrow> u32) device" where
  "mem_device =
     \<lparr>dev_readl = (\<lambda>h reg. (h reg, h)),
      dev_writel = (\<lambda>h reg v. h(reg := v)),
      dev_delay = (\<lambda>h n. h),
      dev_dma_prep = (\<lambda>h dir. (True, h))\<rparr>"

definition const_device :: "u32 \<Rightarrow> unit device" where
  "const_device v =
     \<lparr>dev_readl = (\<lambda>h reg. (v, h)),
      dev_writel = (\<lambda>h reg w. h),
      dev_delay = (\<lambda>h n. h),
      dev_dma_prep = (\<lambda>h dir. (True, h))\<rparr>"

definition fifo_device :: "(u32 list) device" where
  "fifo_device =
     \<lparr>dev_readl = (\<lambda>q reg. if reg = SDHCI_BUFFER
                             then (case q of [] \<Rightarrow> (0, []) | w # ws \<Rightarrow> (w, ws))
                             else (0, q)),
      dev_writel = (\<lambda>q reg v. if reg = SDHCI_BUFFER then q @ [v] else q),
      dev_delay = (\<lambda>q n. q),
      dev_dma_prep = (\<lambda>q dir. (False, q))\<rparr>"

definition command0 :: mmc_command where
  "command0 =
     \<lparr>opcode = 0, arg = 0, resp = (\<lambda>i. 0), cmd_flags = 0, cmd_error = 0, busy_timeout = 0\<rparr>"

definition data0 :: mmc_data where
  "data0 =
     \<lparr>blksz = 0, data_blocks = 0, data_flags = 0, data_error = 0, bytes_xfered = 0,
      stop = None, sg = []\<rparr>"

definition host0 :: "'h \<Rightarrow> 'h bcm2835_host" where
  "host0 h =
     \<lparr>clock = 0, max_clk = 0, actual_clock = 0, max_blk_size = 512,
      sg_miter = sg_miter_start [], blocks = 0, ier = 0, mrq = None, cmd = None,
      data = None, data_early = False, thread_isr = 0, shadow = 0, have_dma = False,
      use_dma = False, max_delay = 0, flags = SDHCI_AUTO_CMD23, mmc_debug = 0, hw = h,
      trace = []\<rparr>"

definition config0 :: config where
  "config0 = \<lparr>PIO_DMA_BARRIER = 0, CONFIG_ARCH_BCM2835 = True, HZ = 100\<rparr>"

text \<open>
  A device keeps the word at an offset when a read there returns the last word written,
  also after a delay.
\<close>

definition keeps_word :: "'h device \<Rightarrow> int \<Rightarrow> bool" where
  "keeps_word d reg \<longleftrightarrow>
     (\<forall>h w. fst (dev_readl d (dev_writel d h reg w) reg) = w) \<and>
     (\<forall>h n. fst (dev_readl d (dev_delay d h n) reg) = fst (dev_readl d h reg))"

definition host_c10 :: "(int \<Rightarrow> u32) bcm2835_host" where
  "host_c10 = host0 ((\<lambda>reg. 0)(SDHCI_TRANSFER_MODE := 0xAAAA5555))"

text \<open>
  A step that touches only the hardware: every field of the host but the device state
  is as before, and the trace has grown.
\<close>

definition hw_step :: "'h bcm2835_host \<Rightarrow> 'h bcm2835_host \<Rightarrow> bool" where
  "hw_step host host' \<longleftrightarrow> (\<exists>h evs. host' = host\<lparr>hw := h, trace := trace host @ evs\<rparr>)"


text \<open>
  The divisors the divider field can hold: 1 (field 0), or an even number up to the
  maximum.
\<close>

definition valid_divisor :: "nat \<Rightarrow> bool" where
  "valid_divisor k \<longleftrightarrow> k = 1 \<or> (even k \<and> 2 \<le> k \<and> k \<le> SDHCI_MAX_DIV_SPEC_300)"


definition host_c1 :: "u32 \<Rightarrow> (int \<Rightarrow> u32) bcm2835_host" where
  "host_c1 mclk = (host0 (\<lambda>reg. 0))\<lparr>max_clk := mclk\<rparr>"

definition data_c3 :: "u32 \<Rightarrow> mmc_data" where
  "data_c3 n = data0\<lparr>blksz := 512, data_blocks := n, data_flags := MMC_DATA_WRITE\<rparr>"

definition request_c3 :: "u32 \<Rightarrow> mmc_request" where
  "request_c3 n =
     \<lparr>sbc = None, mrq_cmd = command0\<lparr>opcode := MMC_WRITE_MULTIPLE_BLOCK\<rparr>,
      mrq_data = Some (data_c3 n)\<rparr>"

definition host_c3 :: "u32 \<Rightarrow> (int \<Rightarrow> u32) bcm2835_host" where
  "host_c3 n = (host0 (\<lambda>reg. 0))\<lparr>mrq := Some (request_c3 n), have_dma := True\<rparr>"

definition request_c4 :: mmc_request where
  "request_c4 =
     \<lparr>sbc = Some (command0\<lparr>opcode := 23, arg := 8\<rparr>),
      mrq_cmd = command0\<lparr>opcode := MMC_WRITE_MULTIPLE_BLOCK\<rparr>,
      mrq_data = Some (data_c3 8)\<rparr>"

definition host_c4 :: "(int \<Rightarrow> u32) bcm2835_host" where
  "host_c4 = (host0 (\<lambda>reg. 0))\<lparr>mrq := Some request_c4, data := Some MRQ_DATA\<rparr>"

text \<open>The error field of a command of the request after a run, if there is one.\<close>

definition result_cmd_error :: "'h bcm2835_host option \<Rightarrow> cmd_ref \<Rightarrow> int option" where
  "result_cmd_error res cref =
     (case res of None \<Rightarrow> None | Some host \<Rightarrow> map_option cmd_error (cmd_obj host cref))"

definition host_c2 :: "unit bcm2835_host" where
  "host_c2 = (host0 ())\<lparr>mrq := Some \<lparr>sbc = None, mrq_cmd = command0, mrq_data = None\<rparr>\<rparr>"

text \<open>
  A request with the results erased: the error fields of its commands and the
  byte count of its data. The dispatch and completion paths change nothing else in a
  request.
\<close>

definition norm_cmd :: "mmc_command \<Rightarrow> mmc_command" where
  "norm_cmd c = c\<lparr>cmd_error := 0\<rparr>"

definition norm_request :: "mmc_request \<Rightarrow> mmc_request" where
  "norm_request r =
     r\<lparr>sbc := map_option norm_cmd (sbc r), mrq_cmd := norm_cmd (mrq_cmd r),
       mrq_data := map_option
         (\<lambda>dt. dt\<lparr>bytes_xfered := 0, stop := map_option norm_cmd (stop dt)\<rparr>) (mrq_data r)\<rparr>"

text \<open>
  A step of the driver that only extends the trace and leaves the request as it is up
  to those results.
\<close>

definition step_rel :: "'h bcm2835_host \<Rightarrow> 'h bcm2835_host \<Rightarrow> bool" where
  "step_rel host host' \<longleftrightarrow>
     (\<exists>evs. trace host' = trace host @ evs) \<and>
     map_option norm_request (mrq host') = map_option norm_request (mrq host)"

text \<open>
  The MMIO writes of a trace, in order.
\<close>

fun mmio_writes :: "event list \<Rightarrow> (int \<times> u32) list" where
  "mmio_writes [] = []"
| "mmio_writes (MmioWrite reg v # evs) = (reg, v) # mmio_writes evs"
| "mmio_writes (ev # evs) = mmio_writes evs"

text \<open>
  A step that touches only the hardware and writes no register.
\<close>

definition quiet_step :: "'h bcm2835_host \<Rightarrow> 'h bcm2835_host \<Rightarrow> bool" where
  "quiet_step host host' \<longleftrightarrow>
     (\<exists>h evs. host' = host\<lparr>hw := h, trace := trace host @ evs\<rparr> \<and> mmio_writes evs = [])"

text \<open>
  \<open>host->mrq->data\<close>.
\<close>

definition request_data :: "'h bcm2835_host \<Rightarrow> mmc_data option" where
  "request_data host = Option.bind (mrq host) mrq_data"

definition stop_c7 :: mmc_command where
  "stop_c7 = command0\<lparr>opcode := 12,
               cmd_flags := MMC_RSP_PRESENT OR MMC_RSP_CRC OR MMC_RSP_OPCODE OR MMC_RSP_BUSY\<rparr>"

definition data_c7 :: mmc_data where
  "data_c7 = (data_c3 8)\<lparr>data_error := - EILSEQ, stop := Some stop_c7\<rparr>"

definition host_c7 :: "unit bcm2835_host" where
  "host_c7 =
     (host0 ())\<lparr>mrq := Some \<lparr>sbc = None,
                              mrq_cmd = command0\<lparr>opcode := MMC_WRITE_MULTIPLE_BLOCK\<rparr>,
                              mrq_data = Some data_c7\<rparr>,
                 data := Some MRQ_DATA\<rparr>"

text \<open>
  The 32-bit chunk \<open>k\<close> of the response registers, and the byte just below it, as the
  driver reads them.
\<close>

definition resp_chunk :: "'h device \<Rightarrow> 'h bcm2835_host \<Rightarrow> nat \<Rightarrow> u32" where
  "resp_chunk d host k = fst (bcm2835_mmc_readl d host (SDHCI_RESPONSE + 4 * int k))"

definition resp_prev_byte :: "'h device \<Rightarrow> 'h bcm2835_host \<Rightarrow> nat \<Rightarrow> u32" where
  "resp_prev_byte d host k =
     ucast (fst (bcm2835_mmc_readb d host (SDHCI_RESPONSE + 4 * int k - 1)))"

text \<open>
  A device whose reads do not change it.
\<close>

definition pure_reads :: "'h device \<Rightarrow> bool" where
  "pure_reads d \<longleftrightarrow> (\<forall>h reg. snd (dev_readl d h reg) = h)"

text \<open>
  Word \<open>i\<close> of the response of a command of the request after a run.
\<close>

definition result_resp :: "'h bcm2835_host option \<Rightarrow> cmd_ref \<Rightarrow> nat \<Rightarrow> u32 option" where
  "result_resp res cref i =
     (case res of None \<Rightarrow> None | Some host \<Rightarrow> map_option (\<lambda>c. resp c i) (cmd_obj host cref))"

definition host_c6 :: "(int \<Rightarrow> u32) bcm2835_host" where
  "host_c6 =
     (host0 ((\<lambda>reg. 0)(SDHCI_RESPONSE := 0x11223344, SDHCI_TRANSFER_MODE := 0xAB000000,
                         SDHCI_RESPONSE + 4 := 0x55667788, SDHCI_RESPONSE + 8 := 0x99AABBCC,
                         SDHCI_RESPONSE + 12 := 0x00DDEEFF)))
       \<lparr>mrq := Some \<lparr>sbc = None,
                     mrq_cmd = command0\<lparr>opcode := 2,
                                 cmd_flags := MMC_RSP_PRESENT OR MMC_RSP_136 OR MMC_RSP_CRC\<rparr>,
                     mrq_data = None\<rparr>,
        cmd := Some CMD\<rparr>"

text \<open>
  The bytes of the buffer register. \<open>le_word\<close> packs up to four bytes into a word, the
  first byte least significant; \<open>word_bytes\<close> lists the four bytes of a word in that
  order, and \<open>fifo_bytes\<close> those of a queue of words. \<open>avail\<close> is what the reader can still
  deliver: the \<open>chunk\<close> bytes left in its scratch word, then the bytes of the queue.
\<close>

primrec le_word :: "u8 list \<Rightarrow> u32" where
  "le_word [] = 0"
| "le_word (b # bs) = ucast b OR push_bit 8 (le_word bs)"

definition word_bytes :: "u32 \<Rightarrow> u8 list" where
  "word_bytes w = [ucast w, ucast (drop_bit 8 w), ucast (drop_bit 16 w), ucast (drop_bit 24 w)]"

definition fifo_bytes :: "u32 list \<Rightarrow> u8 list" where
  "fifo_bytes q = concat (map word_bytes q)"

definition avail :: "u32 \<Rightarrow> nat \<Rightarrow> u32 list \<Rightarrow> u8 list" where
  "avail scratch chunk q = take chunk (word_bytes scratch) @ fifo_bytes q"

text \<open>
  A host with a 5-byte block pending on an empty FIFO, its iterator at the start of the
  given regions.
\<close>

definition host_c5 :: "u8 list list \<Rightarrow> u32 list bcm2835_host" where
  "host_c5 regions =
     (host0 [])\<lparr>mrq := Some \<lparr>sbc = None, mrq_cmd = command0,
                              mrq_data = Some (data0\<lparr>blksz := 5\<rparr>)\<rparr>,
                 data := Some MRQ_DATA, sg_miter := sg_miter_start regions\<rparr>"

section \<open>Properties\<close>

subsection \<open>Words\<close>

lemma word32_ffff: "(0xffff :: 32 word) = mask 16"
  by (simp add: mask_eq_exp_minus_1)

lemma ucast_and_ffff: "(ucast ((x :: 32 word) AND 0xffff) :: 16 word) = ucast x"
  by (rule bit_word_eqI) (auto simp: bit_simps word32_ffff)

lemma ucast_low_half:
  "(ucast ((w AND NOT 0xffff) OR ucast (v::16 word) :: 32 word) :: 16 word) = v"
  by (rule bit_word_eqI) (auto simp: bit_simps word32_ffff)

lemma ucast_low_half_nf:
  "(ucast ((w AND - 65536) OR ucast (v::16 word) :: 32 word) :: 16 word) = v"
  using ucast_low_half[of w v] by simp

lemma neg_high_mask: "(- 4294901761 :: 32 word) = 0xffff"
  by simp

lemma ucast_low_half_cmd:
  "(ucast ((w AND 0xffff) OR push_bit 16 (ucast (c::16 word)) :: 32 word) :: 16 word) = ucast w"
  by (rule bit_word_eqI) (auto simp: bit_simps word32_ffff)

subsection \<open>Register access layer\<close>

lemma writew_transfer_mode:
  "bcm2835_mmc_writew d host v SDHCI_TRANSFER_MODE =
     host\<lparr>hw := snd (dev_readl d (hw host) SDHCI_TRANSFER_MODE),
          shadow := (fst (dev_readl d (hw host) SDHCI_TRANSFER_MODE) AND NOT 0xffff) OR ucast v\<rparr>"
  by (simp add: bcm2835_mmc_writew_def SDHCI_TRANSFER_MODE_def SDHCI_COMMAND_def
      bcm2835_mmc_readl_def readl_def Let_def split: prod.splits)

lemma readw_transfer_mode:
  "bcm2835_mmc_readw d host SDHCI_TRANSFER_MODE =
     (ucast (fst (dev_readl d (hw host) SDHCI_TRANSFER_MODE)),
      host\<lparr>hw := snd (dev_readl d (hw host) SDHCI_TRANSFER_MODE)\<rparr>)"
  by (simp add: bcm2835_mmc_readw_def SDHCI_TRANSFER_MODE_def bcm2835_mmc_readl_def readl_def
      Let_def ucast_and_ffff split: prod.splits)

lemma writew_command:
  "bcm2835_mmc_writew d host c SDHCI_COMMAND =
     bcm2835_mmc_writel d host ((shadow host AND 0xffff) OR push_bit 16 (ucast c))
       SDHCI_TRANSFER_MODE"
  by (simp add: bcm2835_mmc_writew_def SDHCI_TRANSFER_MODE_def SDHCI_COMMAND_def Let_def
      neg_high_mask)

lemma read_after_writel:
  assumes "keeps_word d reg"
  shows "fst (dev_readl d (hw (bcm2835_mmc_writel d host w reg)) reg) = w"
  using assms
  by (simp add: keeps_word_def bcm2835_mmc_writel_def writel_def udelay_def Let_def)

text \<open>
  C10. A 16-bit write of \<open>v\<close> to the transfer-mode register leaves the trace as it is
  (no MMIO write, no delay) and puts \<open>v\<close> into the low half of the shadow. No 16-bit
  read looks at the shadow. Reading the transfer-mode register back returns the low half
  of what the hardware answers, whatever \<open>v\<close> was. The next write to the command
  register writes a word to the hardware whose low half is \<open>v\<close>, and on a device that
  keeps the word written there, the read-back is \<open>v\<close> from then on.
\<close>

theorem transfer_mode_write_shadowed:
  "trace (bcm2835_mmc_writew d host v SDHCI_TRANSFER_MODE) = trace host \<and>
   ucast (shadow (bcm2835_mmc_writew d host v SDHCI_TRANSFER_MODE)) = v \<and>
   fst (bcm2835_mmc_readw d (host\<lparr>shadow := s\<rparr>) reg) = fst (bcm2835_mmc_readw d host reg) \<and>
   fst (bcm2835_mmc_readw d (bcm2835_mmc_writew d host v SDHCI_TRANSFER_MODE)
          SDHCI_TRANSFER_MODE) =
     ucast (fst (dev_readl d (snd (dev_readl d (hw host) SDHCI_TRANSFER_MODE))
                   SDHCI_TRANSFER_MODE)) \<and>
   (\<exists>w evs. trace (bcm2835_mmc_writew d (bcm2835_mmc_writew d host v SDHCI_TRANSFER_MODE) c
                    SDHCI_COMMAND) =
              trace host @ MmioWrite SDHCI_TRANSFER_MODE w # evs \<and> ucast w = v) \<and>
   (keeps_word d SDHCI_TRANSFER_MODE \<longrightarrow>
      fst (bcm2835_mmc_readw d
             (bcm2835_mmc_writew d (bcm2835_mmc_writew d host v SDHCI_TRANSFER_MODE) c
                SDHCI_COMMAND)
             SDHCI_TRANSFER_MODE) = v)"
proof (intro conjI impI)
  show "trace (bcm2835_mmc_writew d host v SDHCI_TRANSFER_MODE) = trace host"
    by (simp add: writew_transfer_mode)
  show "ucast (shadow (bcm2835_mmc_writew d host v SDHCI_TRANSFER_MODE)) = v"
    by (simp add: writew_transfer_mode ucast_low_half_nf)
  show "fst (bcm2835_mmc_readw d (host\<lparr>shadow := s\<rparr>) reg) = fst (bcm2835_mmc_readw d host reg)"
    by (simp add: bcm2835_mmc_readw_def bcm2835_mmc_readl_def readl_def Let_def
        split: prod.splits)
  show "fst (bcm2835_mmc_readw d (bcm2835_mmc_writew d host v SDHCI_TRANSFER_MODE)
               SDHCI_TRANSFER_MODE) =
        ucast (fst (dev_readl d (snd (dev_readl d (hw host) SDHCI_TRANSFER_MODE))
                      SDHCI_TRANSFER_MODE))"
    by (simp add: writew_transfer_mode readw_transfer_mode)
  show "\<exists>w evs. trace (bcm2835_mmc_writew d (bcm2835_mmc_writew d host v SDHCI_TRANSFER_MODE) c
                        SDHCI_COMMAND) =
                  trace host @ MmioWrite SDHCI_TRANSFER_MODE w # evs \<and> ucast w = v"
    by (simp add: writew_command writew_transfer_mode bcm2835_mmc_writel_def writel_def
        udelay_def Let_def ucast_low_half_cmd ucast_low_half_nf)
next
  assume k: "keeps_word d SDHCI_TRANSFER_MODE"
  show "fst (bcm2835_mmc_readw d
               (bcm2835_mmc_writew d (bcm2835_mmc_writew d host v SDHCI_TRANSFER_MODE) c
                  SDHCI_COMMAND)
               SDHCI_TRANSFER_MODE) = v"
    by (simp add: readw_transfer_mode writew_command read_after_writel[OF k]
        ucast_low_half_cmd) (simp add: writew_transfer_mode ucast_low_half_nf)
qed

theorem transfer_mode_write_shadowed_witness:
  "keeps_word mem_device SDHCI_TRANSFER_MODE \<and>
   fst (bcm2835_mmc_readw mem_device
          (bcm2835_mmc_writew mem_device host_c10 0x1234 SDHCI_TRANSFER_MODE)
          SDHCI_TRANSFER_MODE) = 0x5555 \<and>
   fst (bcm2835_mmc_readw mem_device
          (bcm2835_mmc_writew mem_device
             (bcm2835_mmc_writew mem_device host_c10 0x1234 SDHCI_TRANSFER_MODE) 0x0102
             SDHCI_COMMAND)
          SDHCI_TRANSFER_MODE) = 0x1234"
proof -
  have k: "keeps_word mem_device SDHCI_TRANSFER_MODE"
    by (simp add: keeps_word_def mem_device_def)
  have r: "ucast (fst (dev_readl mem_device
              (snd (dev_readl mem_device (hw host_c10) SDHCI_TRANSFER_MODE))
              SDHCI_TRANSFER_MODE)) = (0x5555 :: u16)"
    by (simp add: mem_device_def host_c10_def host0_def)
  from transfer_mode_write_shadowed[of mem_device host_c10 "0x1234" _ _ "0x0102"] k r
  show ?thesis by simp
qed

subsection \<open>Steps that touch only the hardware\<close>

lemma hw_stepI: "host' = host\<lparr>hw := h, trace := trace host @ evs\<rparr> \<Longrightarrow> hw_step host host'"
  unfolding hw_step_def by blast

lemma hw_step_refl [simp]: "hw_step host host"
  by (rule hw_stepI[where h = "hw host" and evs = "[]"]) simp

lemma hw_step_trans: "hw_step a b \<Longrightarrow> hw_step b c \<Longrightarrow> hw_step a c"
proof -
  assume "hw_step a b" "hw_step b c"
  then obtain h evs h' evs' where
    "b = a\<lparr>hw := h, trace := trace a @ evs\<rparr>" "c = b\<lparr>hw := h', trace := trace b @ evs'\<rparr>"
    unfolding hw_step_def by blast
  then have "c = a\<lparr>hw := h', trace := trace a @ (evs @ evs')\<rparr>" by simp
  then show ?thesis by (rule hw_stepI)
qed

lemma hw_step_fields:
  assumes "hw_step host host'"
  shows "clock host' = clock host" "max_clk host' = max_clk host"
    "actual_clock host' = actual_clock host" "max_blk_size host' = max_blk_size host"
    "sg_miter host' = sg_miter host" "blocks host' = blocks host" "ier host' = ier host"
    "mrq host' = mrq host" "cmd host' = cmd host" "data host' = data host"
    "data_early host' = data_early host" "thread_isr host' = thread_isr host"
    "shadow host' = shadow host" "have_dma host' = have_dma host"
    "use_dma host' = use_dma host" "max_delay host' = max_delay host"
    "flags host' = flags host" "mmc_debug host' = mmc_debug host"
  using assms unfolding hw_step_def by auto

lemma hw_step_udelay [simp]: "hw_step host (udelay d host n)"
  unfolding udelay_def by (rule hw_stepI) simp

lemma hw_step_mdelay [simp]: "hw_step host (mdelay d host n)"
  unfolding mdelay_def by (rule hw_stepI) simp

lemma hw_step_readl: "bcm2835_mmc_readl d host reg = (v, host') \<Longrightarrow> hw_step host host'"
  unfolding bcm2835_mmc_readl_def readl_def
  by (rule hw_stepI[where h = "snd (dev_readl d (hw host) reg)" and evs = "[]"])
    (auto split: prod.splits)

lemma hw_step_writel [simp]: "hw_step host (bcm2835_mmc_writel d host v reg)"
  unfolding bcm2835_mmc_writel_def writel_def udelay_def Let_def
  by (auto intro!: hw_stepI)

lemma hw_step_raw_writel [simp]: "hw_step host (mmc_raw_writel d host v reg)"
  unfolding mmc_raw_writel_def writel_def udelay_def Let_def
  by (auto intro!: hw_stepI)

lemma hw_step_readw: "bcm2835_mmc_readw d host reg = (v, host') \<Longrightarrow> hw_step host host'"
  unfolding bcm2835_mmc_readw_def
  by (auto simp: Let_def split: prod.splits dest: hw_step_readl)

lemma hw_step_readb: "bcm2835_mmc_readb d host reg = (v, host') \<Longrightarrow> hw_step host host'"
  unfolding bcm2835_mmc_readb_def
  by (auto simp: Let_def split: prod.splits dest: hw_step_readl)

lemma hw_step_writeb [simp]: "hw_step host (bcm2835_mmc_writeb d host v reg)"
proof -
  obtain x h1 where r: "bcm2835_mmc_readl d host (reg AND NOT 3) = (x, h1)"
    by (cases "bcm2835_mmc_readl d host (reg AND NOT 3)") auto
  show ?thesis
    unfolding bcm2835_mmc_writeb_def Let_def r prod.case
    by (rule hw_step_trans[OF hw_step_readl[OF r] hw_step_writel])
qed

lemma hw_step_writew [simp]:
  assumes "reg \<noteq> SDHCI_TRANSFER_MODE"
  shows "hw_step host (bcm2835_mmc_writew d host v reg)"
proof (cases "reg = SDHCI_COMMAND")
  case True
  then show ?thesis
    unfolding bcm2835_mmc_writew_def Let_def using assms by simp
next
  case False
  obtain x h1 where r: "bcm2835_mmc_readl d host (reg AND NOT 3) = (x, h1)"
    by (cases "bcm2835_mmc_readl d host (reg AND NOT 3)") auto
  show ?thesis
    unfolding bcm2835_mmc_writew_def Let_def using assms False
    by (simp add: r[simplified]) (rule hw_step_trans[OF hw_step_readl[OF r] hw_step_writel])
qed

lemma hw_step_clock_wait:
  "clock_wait d host timeout = (r, host') \<Longrightarrow> hw_step host host'"
proof (induction timeout arbitrary: host)
  case 0
  then show ?case
    by (subst (asm) clock_wait.simps)
      (auto simp: Let_def split: prod.splits if_splits dest: hw_step_readw)
next
  case (Suc t)
  obtain x h1 where r: "bcm2835_mmc_readw d host SDHCI_CLOCK_CONTROL = (x, h1)"
    by (cases "bcm2835_mmc_readw d host SDHCI_CLOCK_CONTROL") auto
  note s1 = hw_step_readw[OF r]
  show ?case
  proof (cases "x AND SDHCI_CLOCK_INT_STABLE \<noteq> 0")
    case True
    with Suc.prems r s1 show ?thesis
      by (subst (asm) clock_wait.simps) (simp add: Let_def)
  next
    case False
    with Suc.prems r have "clock_wait d (mdelay d h1 1) t = (r, host')"
      by (subst (asm) clock_wait.simps) (simp add: Let_def)
    from Suc.IH[OF this] have "hw_step (mdelay d h1 1) host'" .
    then show ?thesis
      using s1 hw_step_trans hw_step_mdelay by blast
  qed
qed



subsection \<open>Clock divisor\<close>

lemma set_clock_div_props:
  assumes "even dv" "dv \<le> SDHCI_MAX_DIV_SPEC_300"
  shows "dv \<le> set_clock_div mclk target dv \<and> even (set_clock_div mclk target dv) \<and>
         set_clock_div mclk target dv \<le> SDHCI_MAX_DIV_SPEC_300 \<and>
         (set_clock_div mclk target dv < SDHCI_MAX_DIV_SPEC_300 \<longrightarrow>
            mclk div word_of_nat (set_clock_div mclk target dv) \<le> target) \<and>
         (\<forall>k. dv \<le> k \<and> k < set_clock_div mclk target dv \<and> even k \<longrightarrow>
              \<not> mclk div word_of_nat k \<le> target)"
  using assms
proof (induction mclk target dv rule: set_clock_div.induct)
  case (1 mclk target dv)
  show ?case
  proof (cases "dv < SDHCI_MAX_DIV_SPEC_300 \<and> \<not> mclk div word_of_nat dv \<le> target")
    case False
    then show ?thesis
      using "1.prems" by (subst (1 2 3 4 5 6) set_clock_div.simps) auto
  next
    case True
    have e: "even (dv + 2)" using "1.prems" by simp
    have "dv + 2 \<le> SDHCI_MAX_DIV_SPEC_300"
      using True "1.prems" by (auto simp: SDHCI_MAX_DIV_SPEC_300_def elim!: evenE)
    note IH = "1.IH"[OF conjunct1[OF True] conjunct2[OF True] e this]
    have s: "set_clock_div mclk target dv = set_clock_div mclk target (dv + 2)"
      using True by (subst set_clock_div.simps) simp
    have "\<not> mclk div word_of_nat k \<le> target"
      if "dv \<le> k" "k < set_clock_div mclk target (dv + 2)" "even k" for k
    proof (cases "k = dv")
      case True
      with \<open>dv < SDHCI_MAX_DIV_SPEC_300 \<and> \<not> mclk div word_of_nat dv \<le> target\<close>
      show ?thesis by simp
    next
      case False
      with that "1.prems" have "dv + 2 \<le> k" by (auto elim!: evenE)
      with IH that show ?thesis by blast
    qed
    with IH show ?thesis unfolding s by auto
  qed
qed


lemma clock_control_not_tm: "SDHCI_CLOCK_CONTROL \<noteq> SDHCI_TRANSFER_MODE"
  by (simp add: SDHCI_CLOCK_CONTROL_def SDHCI_TRANSFER_MODE_def)

lemma clock_divisor_pos: "0 < clock_divisor mclk target"
  using set_clock_div_props[of 2 mclk target]
  by (auto simp: clock_divisor_def SDHCI_MAX_DIV_SPEC_300_def)

lemmas writel_frame [simp] = hw_step_fields[OF hw_step_writel]
lemmas raw_writel_frame [simp] = hw_step_fields[OF hw_step_raw_writel]
lemmas writeb_frame [simp] = hw_step_fields[OF hw_step_writeb]
lemmas writew_frame [simp] = hw_step_fields[OF hw_step_writew]
lemmas udelay_frame [simp] = hw_step_fields[OF hw_step_udelay]
lemmas mdelay_frame [simp] = hw_step_fields[OF hw_step_mdelay]
lemmas readl_frame = hw_step_fields[OF hw_step_readl]
lemmas readw_frame = hw_step_fields[OF hw_step_readw]
lemmas readb_frame = hw_step_fields[OF hw_step_readb]
lemmas clock_wait_frame = hw_step_fields[OF hw_step_clock_wait]

lemma actual_clock_set_clock:
  assumes "target \<noteq> 0"
  shows "actual_clock (bcm2835_mmc_set_clock d host target) =
         max_clk host div word_of_nat (clock_divisor (max_clk host) target)"
  using assms clock_divisor_pos[of "max_clk host" target]
  by (auto simp: bcm2835_mmc_set_clock_def Let_def bcm2835_mmc_dumpregs_def
      clock_control_not_tm split: prod.splits option.splits dest!: clock_wait_frame(3))

lemma unat_div_of_nat:
  "k < 2 ^ 32 \<Longrightarrow> unat ((w :: 32 word) div word_of_nat k) = unat w div k"
  by (simp add: unat_div unat_of_nat)


lemma clock_divisor_exhausted: "clock_divisor 250000000 100000 = 2046"
proof -
  let ?r = "set_clock_div 250000000 100000 2"
  note P = set_clock_div_props[of 2 250000000 100000, simplified]
  have r: "2 \<le> ?r" "?r \<le> 2046" using P by (auto simp: SDHCI_MAX_DIV_SPEC_300_def)
  have "\<not> ?r < 2046"
  proof
    assume lt: "?r < 2046"
    with P have "(250000000 :: u32) div word_of_nat ?r \<le> 100000"
      by (simp add: SDHCI_MAX_DIV_SPEC_300_def)
    then have "250000000 div ?r \<le> (100000 :: nat)"
      using lt by (simp add: word_le_nat_alt unat_div_of_nat)
    moreover have "250000000 div 2045 \<le> 250000000 div ?r"
      using lt r(1) by (intro div_le_mono2) auto
    ultimately show False by simp
  qed
  with r show ?thesis by (simp add: clock_divisor_def)
qed

text \<open>
  C1, as stated, fails: with a 250 MHz controller clock and a request of 100 kHz the
  search runs to its bound 2046, and the actual clock 122189 Hz is above the request.
\<close>

theorem set_clock_exceeds_target:
  "actual_clock (bcm2835_mmc_set_clock mem_device (host_c1 250000000) 100000) = 122189 \<and>
   \<not> actual_clock (bcm2835_mmc_set_clock mem_device (host_c1 250000000) 100000) \<le> 100000"
  using actual_clock_set_clock[of 100000 mem_device "host_c1 250000000"]
  by (simp add: host_c1_def host0_def clock_divisor_exhausted)

lemma word_div_of_nat_mono:
  assumes "0 < a" "a \<le> b" "b < 2 ^ 32"
  shows "(w :: u32) div word_of_nat b \<le> w div word_of_nat a"
  using assms by (simp add: word_le_nat_alt unat_div_of_nat div_le_mono2)

text \<open>
  C1, amended. For every request \<open>target > 0\<close>: if \<open>max_clk \<le> target\<close> the divisor is
  1; otherwise it is even, between 2 and the maximum divisor 2046, and no even divisor
  below it has a quotient within the target. The actual clock is \<open>max_clk\<close> divided by
  this divisor, and no divisor the divider field can hold (1, or even up to 2046) gives
  a quotient within the target that is larger. When the request is not below
  \<open>max_clk / 2046\<close>, the actual clock does not exceed the target, so that the divisor
  is the smallest even one whose quotient is within the target. When the request is
  below \<open>max_clk / 2046\<close>, the search ends at its bound: the divisor is 2046 and the
  actual clock \<open>max_clk / 2046\<close> is above the target.
\<close>

theorem set_clock_divisor:
  assumes "target \<noteq> 0"
  shows "(max_clk host \<le> target \<longrightarrow> clock_divisor (max_clk host) target = 1) \<and>
         (\<not> max_clk host \<le> target \<longrightarrow>
            even (clock_divisor (max_clk host) target) \<and>
            2 \<le> clock_divisor (max_clk host) target \<and>
            clock_divisor (max_clk host) target \<le> SDHCI_MAX_DIV_SPEC_300 \<and>
            (\<forall>k. even k \<and> 2 \<le> k \<and> max_clk host div word_of_nat k \<le> target \<longrightarrow>
                 clock_divisor (max_clk host) target \<le> k)) \<and>
         actual_clock (bcm2835_mmc_set_clock d host target) =
           max_clk host div word_of_nat (clock_divisor (max_clk host) target) \<and>
         (max_clk host div word_of_nat SDHCI_MAX_DIV_SPEC_300 \<le> target \<longrightarrow>
            actual_clock (bcm2835_mmc_set_clock d host target) \<le> target) \<and>
         (\<forall>k. valid_divisor k \<and> max_clk host div word_of_nat k \<le> target \<longrightarrow>
              max_clk host div word_of_nat k \<le>
                actual_clock (bcm2835_mmc_set_clock d host target)) \<and>
         (\<not> max_clk host div word_of_nat SDHCI_MAX_DIV_SPEC_300 \<le> target \<longrightarrow>
            clock_divisor (max_clk host) target = SDHCI_MAX_DIV_SPEC_300 \<and>
            actual_clock (bcm2835_mmc_set_clock d host target) =
              max_clk host div word_of_nat SDHCI_MAX_DIV_SPEC_300 \<and>
            \<not> actual_clock (bcm2835_mmc_set_clock d host target) \<le> target)"
proof -
  define dv where "dv = clock_divisor (max_clk host) target"
  note ac = actual_clock_set_clock[OF assms(1), of d host, folded dv_def]
  note P = set_clock_div_props[of 2 "max_clk host" target, simplified]
  have q_le: "max_clk host div word_of_nat k \<le> max_clk host" for k
    by (simp add: word_le_nat_alt unat_div div_le_dividend)
  show ?thesis
  proof (cases "max_clk host \<le> target")
    case True
    then have dv1: "dv = 1" by (simp add: dv_def clock_divisor_def)
    have "max_clk host div word_of_nat SDHCI_MAX_DIV_SPEC_300 \<le> target"
      using q_le[of SDHCI_MAX_DIV_SPEC_300] True by simp
    with True dv1 ac q_le show ?thesis
      unfolding dv_def[symmetric] by simp
  next
    case False
    then have dv: "dv = set_clock_div (max_clk host) target 2"
      by (simp add: dv_def clock_divisor_def)
    have P': "2 \<le> dv" "even dv" "dv \<le> SDHCI_MAX_DIV_SPEC_300"
      "dv < SDHCI_MAX_DIV_SPEC_300 \<longrightarrow> max_clk host div word_of_nat dv \<le> target"
      "\<And>k. 2 \<le> k \<Longrightarrow> k < dv \<Longrightarrow> even k \<Longrightarrow> \<not> max_clk host div word_of_nat k \<le> target"
      using P unfolding dv[symmetric] by (auto simp: SDHCI_MAX_DIV_SPEC_300_def)
    have bound: "max_clk host div word_of_nat dv \<le> target"
      if "max_clk host div word_of_nat SDHCI_MAX_DIV_SPEC_300 \<le> target"
      using P'(3,4) that by (cases "dv < SDHCI_MAX_DIV_SPEC_300") auto
    have least: "dv \<le> k" if "even k" "2 \<le> k" "max_clk host div word_of_nat k \<le> target" for k
      using P'(5)[of k] that by (cases "k < dv") auto
    have maxi: "max_clk host div word_of_nat k \<le> max_clk host div word_of_nat dv"
      if "valid_divisor k" "max_clk host div word_of_nat k \<le> target" for k
    proof (cases "k = 1")
      case True
      with that(2) False show ?thesis by simp
    next
      case k1: False
      with that(1) have k: "even k" "2 \<le> k" "k \<le> SDHCI_MAX_DIV_SPEC_300"
        by (auto simp: valid_divisor_def)
      from least[OF k(1,2) that(2)] have "dv \<le> k" .
      moreover have "k < 2 ^ 32" using k(3) by (auto simp: SDHCI_MAX_DIV_SPEC_300_def)
      moreover have "0 < dv" using P'(1) by simp
      ultimately show ?thesis by (rule word_div_of_nat_mono[rotated])
    qed
    have below: "dv = SDHCI_MAX_DIV_SPEC_300"
      if nb: "\<not> max_clk host div word_of_nat SDHCI_MAX_DIV_SPEC_300 \<le> target"
    proof (rule ccontr)
      assume "dv \<noteq> SDHCI_MAX_DIV_SPEC_300"
      with P'(3) have lt: "dv < SDHCI_MAX_DIV_SPEC_300" by simp
      with P'(4) have "max_clk host div word_of_nat dv \<le> target" by simp
      moreover have "max_clk host div word_of_nat SDHCI_MAX_DIV_SPEC_300 \<le>
                     max_clk host div word_of_nat dv"
        using P'(1,3) by (intro word_div_of_nat_mono) (auto simp: SDHCI_MAX_DIV_SPEC_300_def)
      ultimately show False using nb by simp
    qed
    have c1: "max_clk host \<le> target \<longrightarrow> dv = 1" using False by simp
    have c2: "\<not> max_clk host \<le> target \<longrightarrow>
                even dv \<and> 2 \<le> dv \<and> dv \<le> SDHCI_MAX_DIV_SPEC_300 \<and>
                (\<forall>k. even k \<and> 2 \<le> k \<and> max_clk host div word_of_nat k \<le> target \<longrightarrow> dv \<le> k)"
      using P'(1,2,3) least by blast
    have c4: "max_clk host div word_of_nat SDHCI_MAX_DIV_SPEC_300 \<le> target \<longrightarrow>
                actual_clock (bcm2835_mmc_set_clock d host target) \<le> target"
      using bound by (simp add: ac)
    have c5: "\<forall>k. valid_divisor k \<and> max_clk host div word_of_nat k \<le> target \<longrightarrow>
                max_clk host div word_of_nat k \<le>
                  actual_clock (bcm2835_mmc_set_clock d host target)"
      using maxi by (simp add: ac)
    have c6: "\<not> max_clk host div word_of_nat SDHCI_MAX_DIV_SPEC_300 \<le> target \<longrightarrow>
                dv = SDHCI_MAX_DIV_SPEC_300 \<and>
                actual_clock (bcm2835_mmc_set_clock d host target) =
                  max_clk host div word_of_nat SDHCI_MAX_DIV_SPEC_300 \<and>
                \<not> actual_clock (bcm2835_mmc_set_clock d host target) \<le> target"
    proof
      assume nb: "\<not> max_clk host div word_of_nat SDHCI_MAX_DIV_SPEC_300 \<le> target"
      from below[OF nb] have e: "dv = SDHCI_MAX_DIV_SPEC_300" .
      with ac nb show "dv = SDHCI_MAX_DIV_SPEC_300 \<and>
                actual_clock (bcm2835_mmc_set_clock d host target) =
                  max_clk host div word_of_nat SDHCI_MAX_DIV_SPEC_300 \<and>
                \<not> actual_clock (bcm2835_mmc_set_clock d host target) \<le> target"
        by simp
    qed
    show ?thesis
      unfolding dv_def[symmetric] using c1 c2 ac c4 c5 c6 by blast
  qed
qed

theorem set_clock_divisor_witness:
  "(25000000 :: u32) \<noteq> 0 \<and>
   max_clk (host_c1 50000000) div word_of_nat SDHCI_MAX_DIV_SPEC_300 \<le> 25000000 \<and>
   clock_divisor 50000000 25000000 = 2 \<and>
   actual_clock (bcm2835_mmc_set_clock mem_device (host_c1 50000000) 25000000) = 25000000 \<and>
   (100000 :: u32) \<noteq> 0 \<and>
   \<not> max_clk (host_c1 250000000) div word_of_nat SDHCI_MAX_DIV_SPEC_300 \<le> 100000 \<and>
   clock_divisor 250000000 100000 = 2046 \<and>
   actual_clock (bcm2835_mmc_set_clock mem_device (host_c1 250000000) 100000) = 122189"
proof -
  have m: "max_clk (host_c1 m) = m" for m
    by (simp add: host_c1_def host0_def)
  have t: "(25000000 :: u32) \<noteq> 0" "(100000 :: u32) \<noteq> 0" by simp_all
  have h: "max_clk (host_c1 50000000) div word_of_nat SDHCI_MAX_DIV_SPEC_300 \<le> 25000000"
    by (simp add: m SDHCI_MAX_DIV_SPEC_300_def)
  have nb: "\<not> max_clk (host_c1 250000000) div word_of_nat SDHCI_MAX_DIV_SPEC_300 \<le> 100000"
    by (simp add: m SDHCI_MAX_DIV_SPEC_300_def)
  have dv: "clock_divisor 50000000 25000000 = 2"
    by (simp add: clock_divisor_def set_clock_div.simps[of _ _ 2] SDHCI_MAX_DIV_SPEC_300_def)
  from set_clock_divisor[OF t(1), of "host_c1 50000000" mem_device]
  have a: "actual_clock (bcm2835_mmc_set_clock mem_device (host_c1 50000000) 25000000) =
             max_clk (host_c1 50000000) div
               word_of_nat (clock_divisor (max_clk (host_c1 50000000)) 25000000)"
    by blast
  from set_clock_divisor[OF t(2), of "host_c1 250000000" mem_device] nb
  have b: "clock_divisor (max_clk (host_c1 250000000)) 100000 = SDHCI_MAX_DIV_SPEC_300"
    "actual_clock (bcm2835_mmc_set_clock mem_device (host_c1 250000000) 100000) =
       max_clk (host_c1 250000000) div word_of_nat SDHCI_MAX_DIV_SPEC_300"
    by blast+
  have a': "actual_clock (bcm2835_mmc_set_clock mem_device (host_c1 50000000) 25000000) = 25000000"
    by (simp add: a m dv)
  have b': "clock_divisor 250000000 100000 = 2046"
    "actual_clock (bcm2835_mmc_set_clock mem_device (host_c1 250000000) 100000) = 122189"
    using b by (simp_all add: m SDHCI_MAX_DIV_SPEC_300_def)
  from t h dv a' nb b' show ?thesis by blast
qed

subsection \<open>Backend selection\<close>

lemma or_and_same: "((a AND NOT c) OR b) AND b = (b :: 'a::len word)"
  by (rule bit_word_eqI) (auto simp: bit_simps)

lemma or_and_disjoint: "q AND p = 0 \<Longrightarrow> ((a AND NOT p) OR q) AND p = (0 :: 'a::len word)"
  by (simp add: word_ao_dist word_bw_assocs)

lemma set_transfer_irqs_fields [simp]:
  "use_dma (bcm2835_mmc_set_transfer_irqs d host) = use_dma host"
  "data (bcm2835_mmc_set_transfer_irqs d host) = data host"
  "mrq (bcm2835_mmc_set_transfer_irqs d host) = mrq host"
  "cmd (bcm2835_mmc_set_transfer_irqs d host) = cmd host"
  "flags (bcm2835_mmc_set_transfer_irqs d host) = flags host"
  "shadow (bcm2835_mmc_set_transfer_irqs d host) = shadow host"
  "ier (bcm2835_mmc_set_transfer_irqs d host) =
     (if use_dma host
      then (ier host AND NOT (SDHCI_INT_DATA_AVAIL OR SDHCI_INT_SPACE_AVAIL)) OR
           (SDHCI_INT_DMA_END OR SDHCI_INT_ADMA_ERROR)
      else (ier host AND NOT (SDHCI_INT_DMA_END OR SDHCI_INT_ADMA_ERROR)) OR
           (SDHCI_INT_DATA_AVAIL OR SDHCI_INT_SPACE_AVAIL))"
  by (simp_all add: bcm2835_mmc_set_transfer_irqs_def Let_def)

lemma block_regs_not_tm [simp]:
  "SDHCI_BLOCK_SIZE \<noteq> SDHCI_TRANSFER_MODE" "SDHCI_BLOCK_COUNT \<noteq> SDHCI_TRANSFER_MODE"
  by (simp_all add: SDHCI_BLOCK_SIZE_def SDHCI_BLOCK_COUNT_def SDHCI_TRANSFER_MODE_def)

lemma upd_data_fields [simp]:
  "use_dma (upd_data f host) = use_dma host" "have_dma (upd_data f host) = have_dma host"
  "data (upd_data f host) = data host" "cmd (upd_data f host) = cmd host"
  "flags (upd_data f host) = flags host" "ier (upd_data f host) = ier host"
  "trace (upd_data f host) = trace host" "hw (upd_data f host) = hw host"
  "shadow (upd_data f host) = shadow host" "max_blk_size (upd_data f host) = max_blk_size host"
  "mrq (upd_data f host) = map_option (\<lambda>r. r\<lparr>mrq_data := map_option f (mrq_data r)\<rparr>) (mrq host)"
  by (simp_all add: upd_data_def)

lemma pio_dma_irqs_disjoint:
  "(SDHCI_INT_DMA_END OR SDHCI_INT_ADMA_ERROR) AND
   (SDHCI_INT_DATA_AVAIL OR SDHCI_INT_SPACE_AVAIL) = 0"
  by (simp add: SDHCI_INT_DMA_END_def SDHCI_INT_ADMA_ERROR_def SDHCI_INT_DATA_AVAIL_def
      SDHCI_INT_SPACE_AVAIL_def)

lemma ier_set_transfer_irqs_pio:
  "ier (bcm2835_mmc_set_transfer_irqs d host) AND (SDHCI_INT_DATA_AVAIL OR SDHCI_INT_SPACE_AVAIL) =
     (if use_dma host then 0 else SDHCI_INT_DATA_AVAIL OR SDHCI_INT_SPACE_AVAIL)"
proof (cases "use_dma host")
  case True
  show ?thesis
    unfolding set_transfer_irqs_fields
    using or_and_disjoint[OF pio_dma_irqs_disjoint, of "ier host"] True
    by (simp only: if_True)
next
  case False
  show ?thesis
    unfolding set_transfer_irqs_fields
    using or_and_same[of "ier host" "SDHCI_INT_DMA_END OR SDHCI_INT_ADMA_ERROR"
        "SDHCI_INT_DATA_AVAIL OR SDHCI_INT_SPACE_AVAIL"] False
    by (simp only: if_False)
qed

text \<open>
  C3. When the main command carries data that passes the sanity checks,
  \<open>bcm2835_mmc_prepare_data\<close> returns, and \<open>use_dma\<close> is set if and only if the host has
  DMA channels (\<open>have_dma\<close>) and the block count exceeds \<open>PIO_DMA_BARRIER\<close>; with the
  default barrier 0 that is: DMA whenever the host has it and the block count is not
  zero. Otherwise PIO is selected: the PIO interrupts (data available, space available)
  are enabled exactly when \<open>use_dma\<close> is not set.
\<close>

theorem prepare_data_backend:
  assumes "mrq host = Some r" and "mrq_data r = Some dt"
    and "\<not> blksz dt * data_blocks dt > 524288" and "\<not> blksz dt > max_blk_size host"
    and "\<not> data_blocks dt > 65535"
  shows "\<exists>host'. bcm2835_mmc_prepare_data cfg d host CMD = Some host' \<and>
           (use_dma host' \<longleftrightarrow> have_dma host \<and> data_blocks dt > PIO_DMA_BARRIER cfg) \<and>
           (PIO_DMA_BARRIER cfg = 0 \<longrightarrow> (use_dma host' \<longleftrightarrow> have_dma host \<and> data_blocks dt \<noteq> 0)) \<and>
           (use_dma host' \<longrightarrow>
              ier host' AND (SDHCI_INT_DATA_AVAIL OR SDHCI_INT_SPACE_AVAIL) = 0) \<and>
           (\<not> use_dma host' \<longrightarrow>
              ier host' AND (SDHCI_INT_DATA_AVAIL OR SDHCI_INT_SPACE_AVAIL) =
                SDHCI_INT_DATA_AVAIL OR SDHCI_INT_SPACE_AVAIL)"
proof -
  have nz: "data_blocks dt > 0 \<longleftrightarrow> data_blocks dt \<noteq> 0"
    by (simp add: word_greater_zero_iff)
  show ?thesis
    using assms nz
    by (simp add: bcm2835_mmc_prepare_data_def cmd_data_def Let_def ier_set_transfer_irqs_pio
        del: set_transfer_irqs_fields(7))
qed


theorem prepare_data_backend_witness:
  "mrq (host_c3 8) = Some (request_c3 8) \<and> mrq_data (request_c3 8) = Some (data_c3 8) \<and>
   \<not> blksz (data_c3 8) * data_blocks (data_c3 8) > 524288 \<and>
   \<not> blksz (data_c3 8) > max_blk_size (host_c3 8) \<and> \<not> data_blocks (data_c3 8) > 65535 \<and>
   (\<exists>host'. bcm2835_mmc_prepare_data config0 mem_device (host_c3 8) CMD = Some host' \<and>
            use_dma host') \<and>
   (\<exists>host'. bcm2835_mmc_prepare_data (config0\<lparr>PIO_DMA_BARRIER := 1\<rparr>) mem_device
              (host_c3 1) CMD = Some host' \<and> \<not> use_dma host')"
proof -
  have h: "mrq (host_c3 n) = Some (request_c3 n)" "mrq_data (request_c3 n) = Some (data_c3 n)"
    "have_dma (host_c3 n)" "max_blk_size (host_c3 n) = 512" "blksz (data_c3 n) = 512"
    "data_blocks (data_c3 n) = n" for n
    by (simp_all add: host_c3_def request_c3_def data_c3_def host0_def data0_def)
  have a: "\<not> blksz (data_c3 8) * data_blocks (data_c3 8) > 524288"
    "\<not> blksz (data_c3 8) > max_blk_size (host_c3 8)" "\<not> data_blocks (data_c3 8) > 65535"
    "\<not> blksz (data_c3 1) * data_blocks (data_c3 1) > 524288"
    "\<not> blksz (data_c3 1) > max_blk_size (host_c3 1)" "\<not> data_blocks (data_c3 1) > 65535"
    by (simp_all add: h)
  from prepare_data_backend[OF h(1,2) a(1,2,3), of config0 mem_device]
    prepare_data_backend[OF h(1,2) a(4,5,6), of "config0\<lparr>PIO_DMA_BARRIER := 1\<rparr>" mem_device]
  show ?thesis
    using h a by (auto simp: config0_def)
qed

subsection \<open>Transfer mode\<close>

lemma shadow_writew_transfer_mode:
  "ucast (shadow (bcm2835_mmc_writew d host v SDHCI_TRANSFER_MODE)) = v"
  by (simp add: writew_transfer_mode ucast_low_half_nf)

lemmas trns_defs =
  SDHCI_TRNS_DMA_def SDHCI_TRNS_BLK_CNT_EN_def SDHCI_TRNS_AUTO_CMD12_def
  SDHCI_TRNS_AUTO_CMD23_def SDHCI_TRNS_READ_def SDHCI_TRNS_MULTI_def

text \<open>
  C4. For a command with data, \<open>bcm2835_mmc_set_transfer_mode\<close> returns, and the
  transfer-mode word it leaves in the shadow has the Auto-CMD12 bit only when the
  transfer is multi-block (multi-block opcode or more than one block), the request has
  no block-count sub-command and the host has the Auto-CMD12 capability; it has the
  Auto-CMD23 bit only when (the transfer is multi-block and) a sub-command is present
  and the host has the Auto-CMD23 capability; it never has both.
\<close>

theorem transfer_mode_auto_cmd:
  assumes "mrq host = Some r" and "get_cmd r cref = Some c" and "cmd_data r cref = Some dt"
  shows "\<exists>host'. bcm2835_mmc_set_transfer_mode d host cref = Some host' \<and>
           (ucast (shadow host') AND SDHCI_TRNS_AUTO_CMD12 \<noteq> 0 \<longrightarrow>
              (mmc_op_multi (opcode c) \<or> data_blocks dt > 1) \<and> sbc r = None \<and>
              flags host AND SDHCI_AUTO_CMD12 \<noteq> 0) \<and>
           (ucast (shadow host') AND SDHCI_TRNS_AUTO_CMD23 \<noteq> 0 \<longrightarrow>
              (mmc_op_multi (opcode c) \<or> data_blocks dt > 1) \<and> sbc r \<noteq> None \<and>
              flags host AND SDHCI_AUTO_CMD23 \<noteq> 0) \<and>
           \<not> (ucast (shadow host') AND SDHCI_TRNS_AUTO_CMD12 \<noteq> 0 \<and>
              ucast (shadow host') AND SDHCI_TRNS_AUTO_CMD23 \<noteq> 0)"
  using assms
  by (auto simp: bcm2835_mmc_set_transfer_mode_def Let_def shadow_writew_transfer_mode
      trns_defs split: option.splits)


theorem transfer_mode_auto_cmd_witness:
  "mrq host_c4 = Some request_c4 \<and>
   get_cmd request_c4 CMD = Some (command0\<lparr>opcode := MMC_WRITE_MULTIPLE_BLOCK\<rparr>) \<and>
   cmd_data request_c4 CMD = Some (data_c3 8) \<and>
   (\<exists>host'. bcm2835_mmc_set_transfer_mode mem_device host_c4 CMD = Some host' \<and>
      ucast (shadow host') AND SDHCI_TRNS_AUTO_CMD23 \<noteq> 0 \<and>
      ucast (shadow host') AND SDHCI_TRNS_AUTO_CMD12 = 0 \<and>
      sbc request_c4 \<noteq> None \<and> flags host_c4 AND SDHCI_AUTO_CMD23 \<noteq> 0)"
proof -
  have h: "mrq host_c4 = Some request_c4"
    "get_cmd request_c4 CMD = Some (command0\<lparr>opcode := MMC_WRITE_MULTIPLE_BLOCK\<rparr>)"
    "cmd_data request_c4 CMD = Some (data_c3 8)"
    by (simp_all add: host_c4_def request_c4_def cmd_data_def)
  have e: "\<exists>host'. bcm2835_mmc_set_transfer_mode mem_device host_c4 CMD = Some host' \<and>
      ucast (shadow host') AND SDHCI_TRNS_AUTO_CMD23 \<noteq> 0"
    by (simp add: bcm2835_mmc_set_transfer_mode_def h Let_def mmc_op_multi_def
        shadow_writew_transfer_mode trns_defs host_c4_def host0_def request_c4_def
        data_c3_def data0_def command0_def cmd_data_def SDHCI_AUTO_CMD23_def
        SDHCI_AUTO_CMD12_def SDHCI_REQ_USE_DMA_def MMC_DATA_READ_def MMC_DATA_WRITE_def
        MMC_WRITE_MULTIPLE_BLOCK_def MMC_READ_MULTIPLE_BLOCK_def)
  from transfer_mode_auto_cmd[OF h, of mem_device] e
  show ?thesis using h by auto
qed

subsection \<open>Command dispatch against a busy controller\<close>

lemma inhibit_wait_stuck:
  assumes "\<forall>h. fst (dev_readl d h SDHCI_PRESENT_STATE) AND msk \<noteq> 0"
  shows "\<exists>h'. inhibit_wait d host msk t =
           (None, host\<lparr>hw := h', trace := trace host @ replicate t (Udelay 10)\<rparr>)"
proof (induction t arbitrary: host)
  case 0
  obtain v h1 where r: "dev_readl d (hw host) SDHCI_PRESENT_STATE = (v, h1)"
    by (cases "dev_readl d (hw host) SDHCI_PRESENT_STATE") auto
  with assms have "v AND msk \<noteq> 0" by (metis fst_conv)
  with r show ?case
    by (subst inhibit_wait.simps) (auto simp: bcm2835_mmc_readl_def readl_def)
next
  case (Suc t)
  obtain v h1 where r: "dev_readl d (hw host) SDHCI_PRESENT_STATE = (v, h1)"
    by (cases "dev_readl d (hw host) SDHCI_PRESENT_STATE") auto
  with assms have nz: "v AND msk \<noteq> 0" by (metis fst_conv)
  from Suc.IH[of "udelay d (host\<lparr>hw := h1\<rparr>) 10"] obtain h' where
    "inhibit_wait d (udelay d (host\<lparr>hw := h1\<rparr>) 10) msk t =
       (None, (udelay d (host\<lparr>hw := h1\<rparr>) 10)
                \<lparr>hw := h', trace := trace (udelay d (host\<lparr>hw := h1\<rparr>) 10) @ replicate t (Udelay 10)\<rparr>)"
    by blast
  with r nz show ?case
    by (subst inhibit_wait.simps)
      (auto simp: bcm2835_mmc_readl_def readl_def udelay_def replicate_app_Cons_same)
qed

lemma get_cmd_map_cmd [simp]:
  "get_cmd (map_cmd cref f r) cref = map_option f (get_cmd r cref)"
  by (cases cref) (auto split: option.splits)

lemma cmd_obj_upd_cmd [simp]:
  "cmd_obj (upd_cmd cref f host) cref = map_option f (cmd_obj host cref)"
  by (cases "mrq host") (simp_all add: cmd_obj_def upd_cmd_def)

lemma upd_cmd_fields [simp]:
  "use_dma (upd_cmd cref f host) = use_dma host" "have_dma (upd_cmd cref f host) = have_dma host"
  "data (upd_cmd cref f host) = data host" "cmd (upd_cmd cref f host) = cmd host"
  "flags (upd_cmd cref f host) = flags host" "ier (upd_cmd cref f host) = ier host"
  "trace (upd_cmd cref f host) = trace host" "hw (upd_cmd cref f host) = hw host"
  "shadow (upd_cmd cref f host) = shadow host"
  "mrq (upd_cmd cref f host) = map_option (map_cmd cref f) (mrq host)"
  by (simp_all add: upd_cmd_def)

lemma send_command_stuck:
  assumes "mrq host = Some r" and "get_cmd r cref = Some c"
    and "\<forall>h. fst (dev_readl d h SDHCI_PRESENT_STATE) AND inhibit_mask r cref c \<noteq> 0"
  shows "\<exists>h'. bcm2835_mmc_send_command cfg d host cref =
           Some (tasklet_schedule (upd_cmd cref (\<lambda>x. x\<lparr>cmd_error := - EIO\<rparr>)
                   (host\<lparr>hw := h', trace := trace host @ replicate 1000 (Udelay 10)\<rparr>)))"
proof -
  from inhibit_wait_stuck[OF assms(3), of host 1000] obtain h' where
    "inhibit_wait d host (inhibit_mask r cref c) 1000 =
       (None, host\<lparr>hw := h', trace := trace host @ replicate 1000 (Udelay 10)\<rparr>)" ..
  with assms(1,2) show ?thesis
    by (auto simp: bcm2835_mmc_send_command_def bcm2835_mmc_dumpregs_def)
qed

lemma c2_inputs:
  "mrq host_c2 = Some \<lparr>sbc = None, mrq_cmd = command0, mrq_data = None\<rparr>"
  "get_cmd \<lparr>sbc = None, mrq_cmd = command0, mrq_data = None\<rparr> CMD = Some command0"
  "\<forall>h. fst (dev_readl (const_device 0xffffffff) h SDHCI_PRESENT_STATE) AND
        inhibit_mask \<lparr>sbc = None, mrq_cmd = command0, mrq_data = None\<rparr> CMD command0 \<noteq> 0"
  by (simp_all add: host_c2_def host0_def const_device_def inhibit_mask_def cmd_data_def
      command0_def SDHCI_CMD_INHIBIT_def MMC_RSP_BUSY_def)

text \<open>
  C2, as stated, fails in one point: when the inhibit bits never clear, the error the
  command gets is \<open>-EIO\<close>, not the timeout error \<open>-ETIMEDOUT\<close> that the watchdog and
  the interrupt handlers use.
\<close>

theorem send_command_inhibit_error_is_eio:
  "result_cmd_error (bcm2835_mmc_send_command config0 (const_device 0xffffffff) host_c2 CMD) CMD =
     Some (- EIO) \<and>
   result_cmd_error (bcm2835_mmc_send_command config0 (const_device 0xffffffff) host_c2 CMD) CMD \<noteq>
     Some (- ETIMEDOUT)"
proof -
  from send_command_stuck[OF c2_inputs, of config0] obtain h' where
    "bcm2835_mmc_send_command config0 (const_device 0xffffffff) host_c2 CMD =
       Some (tasklet_schedule (upd_cmd CMD (\<lambda>x. x\<lparr>cmd_error := - EIO\<rparr>)
               (host_c2\<lparr>hw := h', trace := trace host_c2 @ replicate 1000 (Udelay 10)\<rparr>)))" ..
  then show ?thesis
    by (simp add: result_cmd_error_def tasklet_schedule_def cmd_obj_def host_c2_def host0_def
        EIO_def ETIMEDOUT_def)
qed

text \<open>
  C2, amended. When every read of the present-state register shows a bit of the inhibit
  mask of the command, \<open>bcm2835_mmc_send_command\<close> returns after 1000 delays of 10
  microseconds, the command's error is \<open>-EIO\<close>, the finish tasklet is scheduled, and
  nothing else has left the driver: no register was written (neither argument nor
  command), no timer armed; \<open>host->cmd\<close>, \<open>host->data\<close> and the transfer-mode shadow
  are as before.
\<close>

theorem send_command_inhibit_timeout:
  assumes "mrq host = Some r" and "get_cmd r cref = Some c"
    and "\<forall>h. fst (dev_readl d h SDHCI_PRESENT_STATE) AND inhibit_mask r cref c \<noteq> 0"
  shows "\<exists>host'. bcm2835_mmc_send_command cfg d host cref = Some host' \<and>
           cmd_obj host' cref = Some (c\<lparr>cmd_error := - EIO\<rparr>) \<and>
           trace host' = trace host @ replicate 1000 (Udelay 10) @ [TaskletSchedule] \<and>
           cmd host' = cmd host \<and> data host' = data host \<and> shadow host' = shadow host"
proof -
  from send_command_stuck[OF assms, of cfg] obtain h' where
    e: "bcm2835_mmc_send_command cfg d host cref =
           Some (tasklet_schedule (upd_cmd cref (\<lambda>x. x\<lparr>cmd_error := - EIO\<rparr>)
                   (host\<lparr>hw := h', trace := trace host @ replicate 1000 (Udelay 10)\<rparr>)))" ..
  show ?thesis
    unfolding e using assms(1,2)
    by (simp add: tasklet_schedule_def cmd_obj_def)
qed

theorem send_command_inhibit_timeout_witness:
  "mrq host_c2 = Some \<lparr>sbc = None, mrq_cmd = command0, mrq_data = None\<rparr> \<and>
   get_cmd \<lparr>sbc = None, mrq_cmd = command0, mrq_data = None\<rparr> CMD = Some command0 \<and>
   (\<forall>h. fst (dev_readl (const_device 0xffffffff) h SDHCI_PRESENT_STATE) AND
        inhibit_mask \<lparr>sbc = None, mrq_cmd = command0, mrq_data = None\<rparr> CMD command0 \<noteq> 0) \<and>
   (\<exists>host'. bcm2835_mmc_send_command config0 (const_device 0xffffffff) host_c2 CMD = Some host' \<and>
      cmd_obj host' CMD = Some (command0\<lparr>cmd_error := - EIO\<rparr>) \<and>
      trace host' = replicate 1000 (Udelay 10) @ [TaskletSchedule])"
proof -
  have t: "trace host_c2 = []" by (simp add: host_c2_def host0_def)
  from send_command_inhibit_timeout[OF c2_inputs, of config0] c2_inputs t
  show ?thesis by auto
qed

subsection \<open>Steps of the dispatch and completion paths\<close>

named_theorems step_intros

lemma step_rel_refl [step_intros]: "step_rel a a"
  by (simp add: step_rel_def)

lemma step_rel_trans: "step_rel a b \<Longrightarrow> step_rel b c \<Longrightarrow> step_rel a c"
  by (auto simp: step_rel_def)

lemma hw_step_step_rel: "hw_step a b \<Longrightarrow> step_rel a b"
  by (auto simp: hw_step_def step_rel_def)

lemma step_rel_hw: "hw_step b c \<Longrightarrow> step_rel a b \<Longrightarrow> step_rel a c"
  using step_rel_trans hw_step_step_rel by blast

lemma step_rel_prims [step_intros]:
  "step_rel a b \<Longrightarrow> step_rel a (bcm2835_mmc_writel d b v reg)"
  "step_rel a b \<Longrightarrow> step_rel a (mmc_raw_writel d b v reg)"
  "step_rel a b \<Longrightarrow> step_rel a (bcm2835_mmc_writeb d b v8 reg)"
  "step_rel a b \<Longrightarrow> step_rel a (udelay d b n)"
  "step_rel a b \<Longrightarrow> step_rel a (mdelay d b n)"
  "step_rel a b \<Longrightarrow> step_rel a (snd (bcm2835_mmc_readl d b reg))"
  "step_rel a b \<Longrightarrow> step_rel a (snd (bcm2835_mmc_readw d b reg))"
  "step_rel a b \<Longrightarrow> step_rel a (snd (bcm2835_mmc_readb d b reg))"
  "step_rel a b \<Longrightarrow> step_rel a (bcm2835_mmc_dumpregs d b)"
  by (auto intro: step_rel_hw[rotated] hw_step_readl[OF surjective_pairing]
      hw_step_readw[OF surjective_pairing] hw_step_readb[OF surjective_pairing]
      simp: bcm2835_mmc_dumpregs_def)

lemma step_rel_writew [step_intros]:
  "step_rel a b \<Longrightarrow> step_rel a (bcm2835_mmc_writew d b v reg)"
proof (cases "reg = SDHCI_TRANSFER_MODE")
  case True
  assume "step_rel a b"
  then show ?thesis
    unfolding True writew_transfer_mode by (simp add: step_rel_def)
next
  case False
  assume "step_rel a b"
  then show ?thesis
    by (rule step_rel_hw[OF hw_step_writew[OF False]])
qed

lemma step_rel_updates [step_intros]:
  "step_rel a b \<Longrightarrow> step_rel a (b\<lparr>cmd := x1\<rparr>)"
  "step_rel a b \<Longrightarrow> step_rel a (b\<lparr>data := x2\<rparr>)"
  "step_rel a b \<Longrightarrow> step_rel a (b\<lparr>data_early := x3\<rparr>)"
  "step_rel a b \<Longrightarrow> step_rel a (b\<lparr>sg_miter := x4\<rparr>)"
  "step_rel a b \<Longrightarrow> step_rel a (b\<lparr>blocks := x5\<rparr>)"
  "step_rel a b \<Longrightarrow> step_rel a (b\<lparr>use_dma := x6\<rparr>)"
  "step_rel a b \<Longrightarrow> step_rel a (b\<lparr>ier := x7\<rparr>)"
  "step_rel a b \<Longrightarrow> step_rel a (b\<lparr>max_delay := x8\<rparr>)"
  "step_rel a b \<Longrightarrow> step_rel a (b\<lparr>clock := x9\<rparr>)"
  "step_rel a b \<Longrightarrow> step_rel a (b\<lparr>hw := x10\<rparr>)"
  "step_rel a b \<Longrightarrow> step_rel a (b\<lparr>thread_isr := x11\<rparr>)"
  "step_rel a b \<Longrightarrow> step_rel a (b\<lparr>trace := trace b @ evs\<rparr>)"
  "step_rel a b \<Longrightarrow> step_rel a (b\<lparr>hw := x10, trace := trace b @ evs\<rparr>)"
  "step_rel a b \<Longrightarrow> step_rel a (tasklet_schedule b)"
  "step_rel a b \<Longrightarrow> step_rel a (mod_timer b n)"
  "step_rel a b \<Longrightarrow> step_rel a (dma_unmap_sg b dir)"
  "step_rel a b \<Longrightarrow> step_rel a (mmc_signal_sdio_irq b)"
  by (auto simp: step_rel_def tasklet_schedule_def mod_timer_def dma_unmap_sg_def
      mmc_signal_sdio_irq_def)

lemma norm_cmd_eq: "norm_cmd = cmd_error_update (\<lambda>_. 0)"
  by (rule ext) (simp add: norm_cmd_def)

lemma norm_map_cmd_error:
  "norm_request (map_cmd cref (\<lambda>x. x\<lparr>cmd_error := e\<rparr>) r) = norm_request r"
  by (cases cref) (auto simp: norm_request_def norm_cmd_eq option.map_comp comp_def)

lemma step_rel_upd_cmd_error [step_intros]:
  "step_rel a b \<Longrightarrow> step_rel a (upd_cmd cref (\<lambda>x. x\<lparr>cmd_error := e\<rparr>) b)"
  by (cases "mrq b") (auto simp: step_rel_def upd_cmd_def norm_map_cmd_error)

lemma step_rel_upd_bytes [step_intros]:
  "step_rel a b \<Longrightarrow> step_rel a (upd_data (\<lambda>x. x\<lparr>bytes_xfered := g x\<rparr>) b)"
  by (cases "mrq b")
    (auto simp: step_rel_def upd_data_def norm_request_def option.map_comp comp_def)

lemma hw_step_inhibit_wait:
  "inhibit_wait d host msk timeout = (r, host') \<Longrightarrow> hw_step host host'"
proof (induction timeout arbitrary: host)
  case 0
  then show ?case
    by (subst (asm) inhibit_wait.simps)
      (auto simp: Let_def split: prod.splits if_splits dest: hw_step_readl)
next
  case (Suc t)
  obtain x h1 where r: "bcm2835_mmc_readl d host SDHCI_PRESENT_STATE = (x, h1)"
    by (cases "bcm2835_mmc_readl d host SDHCI_PRESENT_STATE") auto
  note s1 = hw_step_readl[OF r]
  show ?case
  proof (cases "x AND msk = 0")
    case True
    with Suc.prems r s1 show ?thesis
      by (subst (asm) inhibit_wait.simps) (simp add: Let_def)
  next
    case False
    with Suc.prems r have "inhibit_wait d (udelay d h1 10) msk t = (r, host')"
      by (subst (asm) inhibit_wait.simps) (simp add: Let_def)
    from Suc.IH[OF this] have "hw_step (udelay d h1 10) host'" .
    then show ?thesis
      using s1 hw_step_trans hw_step_udelay by blast
  qed
qed

lemma hw_step_reset_wait:
  "reset_wait d host msk timeout = (r, host') \<Longrightarrow> hw_step host host'"
proof (induction timeout arbitrary: host)
  case 0
  then show ?case
    by (subst (asm) reset_wait.simps)
      (auto simp: Let_def split: prod.splits if_splits dest: hw_step_readb)
next
  case (Suc t)
  obtain x h1 where r: "bcm2835_mmc_readb d host SDHCI_SOFTWARE_RESET = (x, h1)"
    by (cases "bcm2835_mmc_readb d host SDHCI_SOFTWARE_RESET") auto
  note s1 = hw_step_readb[OF r]
  show ?case
  proof (cases "x AND msk = 0")
    case True
    with Suc.prems r s1 show ?thesis
      by (subst (asm) reset_wait.simps) (simp add: Let_def)
  next
    case False
    with Suc.prems r have "reset_wait d (mdelay d h1 1) msk t = (r, host')"
      by (subst (asm) reset_wait.simps) (simp add: Let_def)
    from Suc.IH[OF this] have "hw_step (mdelay d h1 1) host'" .
    then show ?thesis
      using s1 hw_step_trans hw_step_mdelay by blast
  qed
qed

lemma step_rel_waits [step_intros]:
  "step_rel a b \<Longrightarrow> step_rel a (snd (inhibit_wait d b msk t))"
  "step_rel a b \<Longrightarrow> step_rel a (snd (reset_wait d b m8 t))"
  "step_rel a b \<Longrightarrow> step_rel a (snd (clock_wait d b t))"
  by (auto intro: step_rel_hw[rotated] hw_step_inhibit_wait[OF surjective_pairing]
      hw_step_reset_wait[OF surjective_pairing] hw_step_clock_wait[OF surjective_pairing])

lemma step_rel_reset [step_intros]:
  "step_rel a b \<Longrightarrow> step_rel a (bcm2835_mmc_reset d b m)"
  unfolding bcm2835_mmc_reset_def Let_def split_def
  by (auto intro!: step_intros split: option.splits)

lemma step_rel_set_transfer_irqs [step_intros]:
  "step_rel a b \<Longrightarrow> step_rel a (bcm2835_mmc_set_transfer_irqs d b)"
  unfolding bcm2835_mmc_set_transfer_irqs_def Let_def
  by (auto intro!: step_intros)

lemma step_rel_unsignal_irqs [step_intros]:
  "step_rel a b \<Longrightarrow> step_rel a (bcm2835_mmc_unsignal_irqs d b clear)"
  unfolding bcm2835_mmc_unsignal_irqs_def Let_def split_def
  by (auto intro!: step_intros)

lemma step_rel_prepare_data:
  "bcm2835_mmc_prepare_data cfg d b cref = Some b' \<Longrightarrow> step_rel a b \<Longrightarrow> step_rel a b'"
  unfolding bcm2835_mmc_prepare_data_def Let_def
  by (auto intro!: step_intros split: option.splits if_splits Option.bind_splits)

lemma step_rel_set_transfer_mode:
  "bcm2835_mmc_set_transfer_mode d b cref = Some b' \<Longrightarrow> step_rel a b \<Longrightarrow> step_rel a b'"
  unfolding bcm2835_mmc_set_transfer_mode_def Let_def split_def
  by (auto intro!: step_intros split: option.splits if_splits Option.bind_splits)

lemma step_rel_send_command:
  "bcm2835_mmc_send_command cfg d b cref = Some b' \<Longrightarrow> step_rel a b \<Longrightarrow> step_rel a b'"
  unfolding bcm2835_mmc_send_command_def Let_def split_def
  by (auto intro!: step_intros
      elim!: step_rel_set_transfer_mode step_rel_prepare_data
      split: option.splits if_splits Option.bind_splits)

lemma step_rel_finish_data:
  "bcm2835_mmc_finish_data cfg d b = Some b' \<Longrightarrow> step_rel a b \<Longrightarrow> step_rel a b'"
  unfolding bcm2835_mmc_finish_data_def Let_def split_def
  by (auto intro!: step_intros elim!: step_rel_send_command
      split: option.splits if_splits Option.bind_splits)

lemma step_rel_transfer_dma:
  "bcm2835_mmc_transfer_dma d b = Some b' \<Longrightarrow> step_rel a b \<Longrightarrow> step_rel a b'"
  unfolding bcm2835_mmc_transfer_dma_def Let_def split_def
  by (auto intro!: step_intros split: option.splits if_splits)

lemma mmio_writes_append [simp]: "mmio_writes (xs @ ys) = mmio_writes xs @ mmio_writes ys"
  by (induction xs rule: mmio_writes.induct) auto

lemma quiet_stepI:
  "host' = host\<lparr>hw := h, trace := trace host @ evs\<rparr> \<Longrightarrow> mmio_writes evs = [] \<Longrightarrow>
   quiet_step host host'"
  unfolding quiet_step_def by blast

lemma quiet_step_refl [simp]: "quiet_step host host"
  by (rule quiet_stepI[where h = "hw host" and evs = "[]"]) simp_all

lemma quiet_step_trans: "quiet_step a b \<Longrightarrow> quiet_step b c \<Longrightarrow> quiet_step a c"
proof -
  assume "quiet_step a b" "quiet_step b c"
  then obtain h evs h' evs' where
    "b = a\<lparr>hw := h, trace := trace a @ evs\<rparr>" "c = b\<lparr>hw := h', trace := trace b @ evs'\<rparr>"
    "mmio_writes evs = []" "mmio_writes evs' = []"
    unfolding quiet_step_def by blast
  then have "c = a\<lparr>hw := h', trace := trace a @ (evs @ evs')\<rparr>" "mmio_writes (evs @ evs') = []"
    by simp_all
  then show ?thesis by (rule quiet_stepI)
qed

lemma quiet_step_mdelay [simp]: "quiet_step host (mdelay d host n)"
  unfolding mdelay_def by (rule quiet_stepI[where evs = "[Mdelay n]"]) simp_all

lemma quiet_step_udelay [simp]: "quiet_step host (udelay d host n)"
  unfolding udelay_def by (rule quiet_stepI[where evs = "[Udelay n]"]) simp_all

lemma quiet_step_readl: "bcm2835_mmc_readl d host reg = (v, host') \<Longrightarrow> quiet_step host host'"
  unfolding bcm2835_mmc_readl_def readl_def
  by (rule quiet_stepI[where h = "snd (dev_readl d (hw host) reg)" and evs = "[]"])
    (auto split: prod.splits)

lemma quiet_step_readb: "bcm2835_mmc_readb d host reg = (v, host') \<Longrightarrow> quiet_step host host'"
  unfolding bcm2835_mmc_readb_def
  by (auto simp: Let_def split: prod.splits dest: quiet_step_readl)

lemma quiet_step_reset_wait:
  "reset_wait d host msk timeout = (r, host') \<Longrightarrow> quiet_step host host'"
proof (induction timeout arbitrary: host)
  case 0
  then show ?case
    by (subst (asm) reset_wait.simps)
      (auto simp: Let_def split: prod.splits if_splits dest: quiet_step_readb)
next
  case (Suc t)
  obtain x h1 where r: "bcm2835_mmc_readb d host SDHCI_SOFTWARE_RESET = (x, h1)"
    by (cases "bcm2835_mmc_readb d host SDHCI_SOFTWARE_RESET") auto
  note s1 = quiet_step_readb[OF r]
  show ?case
  proof (cases "x AND msk = 0")
    case True
    with Suc.prems r s1 show ?thesis
      by (subst (asm) reset_wait.simps) (simp add: Let_def)
  next
    case False
    with Suc.prems r have "reset_wait d (mdelay d h1 1) msk t = (r, host')"
      by (subst (asm) reset_wait.simps) (simp add: Let_def)
    from Suc.IH[OF this] have "quiet_step (mdelay d h1 1) host'" .
    then show ?thesis
      using s1 quiet_step_trans quiet_step_mdelay by blast
  qed
qed

lemma reset_byte: "(ucast (drop_bit 24 ((w AND NOT (push_bit 24 0xff)) OR push_bit 24 (ucast (m :: u8))) :: u32) :: u8) = m"
  by (rule bit_word_eqI) (auto simp: bit_simps)

lemma writeb_software_reset_trace:
  "\<exists>w evs. trace (bcm2835_mmc_writeb d host m SDHCI_SOFTWARE_RESET) =
             trace host @ MmioWrite (SDHCI_SOFTWARE_RESET AND NOT 3) w # evs \<and>
           mmio_writes evs = [] \<and> ucast (drop_bit 24 w) = m"
proof -
  obtain x h1 where r: "bcm2835_mmc_readl d host (SDHCI_SOFTWARE_RESET AND NOT 3) = (x, h1)"
    by (cases "bcm2835_mmc_readl d host (SDHCI_SOFTWARE_RESET AND NOT 3)") auto
  have t: "trace h1 = trace host"
    using r by (auto simp: bcm2835_mmc_readl_def readl_def split: prod.splits)
  have sh: "unat ((word_of_int (SDHCI_SOFTWARE_RESET AND 3) :: u32) * 8) = 24"
    by (simp add: SDHCI_SOFTWARE_RESET_def)
  show ?thesis
    unfolding bcm2835_mmc_writeb_def Let_def r prod.case sh
    using reset_byte[of x m]
    by (auto simp: bcm2835_mmc_writel_def writel_def udelay_def Let_def t)
qed

lemma reset_trace:
  "\<exists>w evs. trace (bcm2835_mmc_reset d host m) =
             trace host @ MmioWrite (SDHCI_SOFTWARE_RESET AND NOT 3) w # evs \<and>
           mmio_writes evs = [] \<and> ucast (drop_bit 24 w) = m"
proof -
  define h1 where "h1 = bcm2835_mmc_writeb d host m SDHCI_SOFTWARE_RESET"
  define h2 where "h2 = (if m AND SDHCI_RESET_ALL \<noteq> 0 then h1\<lparr>clock := 0\<rparr> else h1)"
  obtain r h3 where w: "reset_wait d h2 m 100 = (r, h3)"
    by (cases "reset_wait d h2 m 100") auto
  from writeb_software_reset_trace[of d host m] obtain w1 evs1 where
    t1: "trace h1 = trace host @ MmioWrite (SDHCI_SOFTWARE_RESET AND NOT 3) w1 # evs1"
      "mmio_writes evs1 = []" "ucast (drop_bit 24 w1) = m"
    unfolding h1_def by blast
  have t2: "trace h2 = trace h1" by (simp add: h2_def)
  from quiet_step_reset_wait[OF w] obtain evs3 where
    t3: "trace h3 = trace h2 @ evs3" "mmio_writes evs3 = []"
    unfolding quiet_step_def by auto
  have e: "trace (bcm2835_mmc_reset d host m) = trace h3"
    unfolding bcm2835_mmc_reset_def Let_def h1_def[symmetric] h2_def[symmetric] w prod.case
    by (simp add: bcm2835_mmc_dumpregs_def split: option.splits)
  have "trace (bcm2835_mmc_reset d host m) =
          trace host @ MmioWrite (SDHCI_SOFTWARE_RESET AND NOT 3) w1 # (evs1 @ evs3)"
    unfolding e t3 t2 t1 by simp
  moreover have "mmio_writes (evs1 @ evs3) = []" using t1 t3 by simp
  ultimately show ?thesis using t1(3) by blast
qed

lemmas inhibit_wait_frame = hw_step_fields[OF hw_step_inhibit_wait[OF surjective_pairing]]

lemmas reset_wait_frame = hw_step_fields[OF hw_step_reset_wait[OF surjective_pairing]]

lemma mrq_reset [simp]: "mrq (bcm2835_mmc_reset d host m) = mrq host"
  unfolding bcm2835_mmc_reset_def Let_def split_def
  by (simp add: reset_wait_frame(8) bcm2835_mmc_dumpregs_def split: option.splits)

lemma send_command_no_data:
  assumes "mrq host = Some r" and "get_cmd r cref = Some c" and "cmd_data r cref = None"
  shows "\<exists>host'. bcm2835_mmc_send_command cfg d host cref = Some host'"
  using assms
  by (simp add: bcm2835_mmc_send_command_def Let_def split_def bcm2835_mmc_prepare_data_def
      bcm2835_mmc_set_transfer_mode_def inhibit_wait_frame(8) mod_timer_def
      split: option.splits)

lemma get_cmd_stop_upd_bytes:
  "get_cmd (r\<lparr>mrq_data := map_option (\<lambda>x. x\<lparr>bytes_xfered := g x\<rparr>) (mrq_data r)\<rparr>) STOP =
   get_cmd r STOP"
  by (cases "mrq_data r") simp_all

text \<open>
  C7. When the data in flight carries an error and has a stop command,
  \<open>bcm2835_mmc_finish_data\<close> is the dispatch of the stop command from a state \<open>h2\<close>
  that the two resets have already produced: up to \<open>h2\<close> the trace has grown by
  exactly two MMIO writes, both to the word of the software-reset register, the first
  with the reset byte \<open>SDHCI_RESET_CMD\<close>, the second with \<open>SDHCI_RESET_DATA\<close> (neither
  is \<open>SDHCI_RESET_ALL\<close>); everything the dispatch of the stop command emits comes after
  them. The dispatch returns.
\<close>

theorem finish_data_resets_before_stop:
  assumes "host_data host = Some dt" and "data_error dt \<noteq> 0" and "stop dt = Some s"
  shows "\<exists>h2 host' evs_reset evs_stop w1 w2.
           trace h2 = trace host @ evs_reset \<and>
           mmio_writes evs_reset =
             [(SDHCI_SOFTWARE_RESET AND NOT 3, w1), (SDHCI_SOFTWARE_RESET AND NOT 3, w2)] \<and>
           ucast (drop_bit 24 w1) = SDHCI_RESET_CMD \<and>
           ucast (drop_bit 24 w2) = SDHCI_RESET_DATA \<and>
           bcm2835_mmc_finish_data cfg d host = bcm2835_mmc_send_command cfg d h2 STOP \<and>
           bcm2835_mmc_send_command cfg d h2 STOP = Some host' \<and>
           trace host' = trace h2 @ evs_stop"
proof -
  from assms(1) obtain r where r: "mrq host = Some r" "mrq_data r = Some dt" "data host \<noteq> None"
    by (auto simp: host_data_def split: option.splits data_ref.splits)
  define h0 where "h0 = upd_data (\<lambda>x. x\<lparr>bytes_xfered :=
                     (if data_error x \<noteq> 0 then 0 else blksz x * data_blocks x)\<rparr>)
                     (host\<lparr>data := None\<rparr>)"
  define h1 where "h1 = bcm2835_mmc_reset d h0 SDHCI_RESET_CMD"
  define h2 where "h2 = bcm2835_mmc_reset d h1 SDHCI_RESET_DATA"
  have t0: "trace h0 = trace host" by (simp add: h0_def)
  from reset_trace[of d h0 SDHCI_RESET_CMD] obtain w1 evs1 where
    t1: "trace h1 = trace h0 @ MmioWrite (SDHCI_SOFTWARE_RESET AND NOT 3) w1 # evs1"
      "mmio_writes evs1 = []" "ucast (drop_bit 24 w1) = SDHCI_RESET_CMD"
    unfolding h1_def by blast
  from reset_trace[of d h1 SDHCI_RESET_DATA] obtain w2 evs2 where
    t2: "trace h2 = trace h1 @ MmioWrite (SDHCI_SOFTWARE_RESET AND NOT 3) w2 # evs2"
      "mmio_writes evs2 = []" "ucast (drop_bit 24 w2) = SDHCI_RESET_DATA"
    unfolding h2_def by blast
  have e: "bcm2835_mmc_finish_data cfg d host = bcm2835_mmc_send_command cfg d h2 STOP"
    using assms r
    by (simp add: bcm2835_mmc_finish_data_def Let_def h0_def[symmetric] h1_def[symmetric]
        h2_def[symmetric])
  define r' where "r' = r\<lparr>mrq_data := map_option (\<lambda>x. x\<lparr>bytes_xfered :=
                     (if data_error x \<noteq> 0 then 0 else blksz x * data_blocks x)\<rparr>) (mrq_data r)\<rparr>"
  have m2: "mrq h2 = Some r'"
    by (simp add: h2_def h1_def h0_def r r'_def)
  have g: "get_cmd r' STOP = Some s"
    unfolding r'_def get_cmd_stop_upd_bytes using r assms(3) by simp
  from send_command_no_data[OF m2 g, of cfg d] obtain host' where
    s: "bcm2835_mmc_send_command cfg d h2 STOP = Some host'"
    by (auto simp: cmd_data_def)
  from step_rel_send_command[OF s step_rel_refl] obtain evs3 where
    t3: "trace host' = trace h2 @ evs3"
    by (auto simp: step_rel_def)
  have "trace h2 = trace host @ (MmioWrite (SDHCI_SOFTWARE_RESET AND NOT 3) w1 # evs1 @
          MmioWrite (SDHCI_SOFTWARE_RESET AND NOT 3) w2 # evs2)"
    unfolding t2 t1 t0 by simp
  moreover have "mmio_writes (MmioWrite (SDHCI_SOFTWARE_RESET AND NOT 3) w1 # evs1 @
          MmioWrite (SDHCI_SOFTWARE_RESET AND NOT 3) w2 # evs2) =
        [(SDHCI_SOFTWARE_RESET AND NOT 3, w1), (SDHCI_SOFTWARE_RESET AND NOT 3, w2)]"
    using t1(2) t2(2) by simp
  ultimately show ?thesis
    using t1(3) t2(3) e s t3 by blast
qed

subsection \<open>Timeout watchdog\<close>

lemma data_error_norm:
  "map_option data_error (mrq_data (norm_request r)) = map_option data_error (mrq_data r)"
  by (cases "mrq_data r") (simp_all add: norm_request_def)

lemma step_rel_data_error:
  assumes "step_rel a b"
  shows "map_option data_error (request_data b) = map_option data_error (request_data a)"
proof -
  from assms have n: "map_option norm_request (mrq b) = map_option norm_request (mrq a)"
    by (simp add: step_rel_def)
  show ?thesis
  proof (cases "mrq a")
    case None
    with n show ?thesis by (simp add: request_data_def)
  next
    case (Some ra)
    with n obtain rb where rb: "mrq b = Some rb" "norm_request rb = norm_request ra"
      by (cases "mrq b") auto
    from data_error_norm[of rb] data_error_norm[of ra] rb(2)
    have "map_option data_error (mrq_data rb) = map_option data_error (mrq_data ra)" by simp
    with Some rb show ?thesis by (simp add: request_data_def)
  qed
qed

text \<open>
  C9. The watchdog expiry. With no request active it returns the host unchanged. With a
  request and data in flight, it is the data completion run on the data with its error
  set to \<open>-ETIMEDOUT\<close>, and when that returns the data of the request still carries
  \<open>-ETIMEDOUT\<close>. With a request and no data in flight, the error of the active command
  (of the main command when none is active) is set to \<open>-ETIMEDOUT\<close> and the finish
  tasklet is scheduled, nothing else.
\<close>

theorem timeout_timer_expiry:
  "(mrq host = None \<longrightarrow> bcm2835_mmc_timeout_timer cfg d host = Some host) \<and>
   (mrq host \<noteq> None \<and> data host \<noteq> None \<longrightarrow>
      bcm2835_mmc_timeout_timer cfg d host =
        bcm2835_mmc_finish_data cfg d (upd_data (\<lambda>x. x\<lparr>data_error := - ETIMEDOUT\<rparr>) host) \<and>
      (\<forall>host'. bcm2835_mmc_timeout_timer cfg d host = Some host' \<longrightarrow>
         map_option data_error (request_data host') = Some (- ETIMEDOUT))) \<and>
   (mrq host \<noteq> None \<and> data host = None \<longrightarrow>
      bcm2835_mmc_timeout_timer cfg d host =
        Some (tasklet_schedule
               (upd_cmd (case cmd host of Some cref \<Rightarrow> cref | None \<Rightarrow> CMD)
                  (\<lambda>x. x\<lparr>cmd_error := - ETIMEDOUT\<rparr>) host)))"
proof (intro conjI impI allI)
  assume "mrq host = None"
  then show "bcm2835_mmc_timeout_timer cfg d host = Some host"
    by (simp add: bcm2835_mmc_timeout_timer_def)
next
  assume a: "mrq host \<noteq> None \<and> data host \<noteq> None"
  then show e: "bcm2835_mmc_timeout_timer cfg d host =
        bcm2835_mmc_finish_data cfg d (upd_data (\<lambda>x. x\<lparr>data_error := - ETIMEDOUT\<rparr>) host)"
    by (auto simp: bcm2835_mmc_timeout_timer_def bcm2835_mmc_dumpregs_def Let_def)
  fix host'
  assume "bcm2835_mmc_timeout_timer cfg d host = Some host'"
  with e have f: "bcm2835_mmc_finish_data cfg d
                    (upd_data (\<lambda>x. x\<lparr>data_error := - ETIMEDOUT\<rparr>) host) = Some host'"
    by simp
  then have "host_data (upd_data (\<lambda>x. x\<lparr>data_error := - ETIMEDOUT\<rparr>) host) \<noteq> None"
    by (auto simp: bcm2835_mmc_finish_data_def split: Option.bind_splits)
  then have "map_option data_error (request_data (upd_data (\<lambda>x. x\<lparr>data_error := - ETIMEDOUT\<rparr>) host)) =
             Some (- ETIMEDOUT)"
    by (auto simp: host_data_def request_data_def upd_data_def
        split: option.splits data_ref.splits)
  with step_rel_data_error[OF step_rel_finish_data[OF f step_rel_refl]]
  show "map_option data_error (request_data host') = Some (- ETIMEDOUT)" by simp
next
  assume "mrq host \<noteq> None \<and> data host = None"
  then show "bcm2835_mmc_timeout_timer cfg d host =
        Some (tasklet_schedule
               (upd_cmd (case cmd host of Some cref \<Rightarrow> cref | None \<Rightarrow> CMD)
                  (\<lambda>x. x\<lparr>cmd_error := - ETIMEDOUT\<rparr>) host))"
    by (auto simp: bcm2835_mmc_timeout_timer_def bcm2835_mmc_dumpregs_def Let_def
        split: option.splits)
qed

lemma c7_inputs:
  "host_data host_c7 = Some data_c7" "data_error data_c7 \<noteq> 0" "stop data_c7 = Some stop_c7"
  by (simp_all add: host_c7_def host0_def host_data_def data_c7_def EILSEQ_def)

theorem finish_data_resets_before_stop_witness:
  "host_data host_c7 = Some data_c7 \<and> data_error data_c7 \<noteq> 0 \<and> stop data_c7 = Some stop_c7 \<and>
   (\<exists>h2 host' evs_reset evs_stop w1 w2.
      trace h2 = trace host_c7 @ evs_reset \<and>
      mmio_writes evs_reset =
        [(SDHCI_SOFTWARE_RESET AND NOT 3, w1), (SDHCI_SOFTWARE_RESET AND NOT 3, w2)] \<and>
      ucast (drop_bit 24 w1) = SDHCI_RESET_CMD \<and>
      ucast (drop_bit 24 w2) = SDHCI_RESET_DATA \<and>
      bcm2835_mmc_finish_data config0 (const_device 0) host_c7 =
        bcm2835_mmc_send_command config0 (const_device 0) h2 STOP \<and>
      bcm2835_mmc_send_command config0 (const_device 0) h2 STOP = Some host' \<and>
      trace host' = trace h2 @ evs_stop)"
  using finish_data_resets_before_stop[OF c7_inputs, of config0 "const_device 0"] c7_inputs
  by simp

theorem timeout_timer_expiry_witness:
  "mrq (host0 ()) = None \<and>
   bcm2835_mmc_timeout_timer config0 (const_device 0) (host0 ()) = Some (host0 ()) \<and>
   mrq host_c7 \<noteq> None \<and> data host_c7 \<noteq> None \<and>
   bcm2835_mmc_timeout_timer config0 (const_device 0) host_c7 =
     bcm2835_mmc_finish_data config0 (const_device 0)
       (upd_data (\<lambda>x. x\<lparr>data_error := - ETIMEDOUT\<rparr>) host_c7) \<and>
   mrq host_c2 \<noteq> None \<and> data host_c2 = None \<and>
   result_cmd_error (bcm2835_mmc_timeout_timer config0 (const_device 0) host_c2) CMD =
     Some (- ETIMEDOUT)"
proof -
  have h: "mrq (host0 ()) = None" "mrq host_c7 \<noteq> None" "data host_c7 \<noteq> None"
    "mrq host_c2 \<noteq> None" "data host_c2 = None" "cmd host_c2 = None"
    by (simp_all add: host0_def host_c7_def host_c2_def)
  from timeout_timer_expiry[of "host0 ()" config0 "const_device 0"]
    timeout_timer_expiry[of host_c7 config0 "const_device 0"]
    timeout_timer_expiry[of host_c2 config0 "const_device 0"] h
  show ?thesis
    by (simp add: result_cmd_error_def tasklet_schedule_def cmd_obj_def)
      (simp add: host_c2_def host0_def)
qed

subsection \<open>Long responses\<close>

lemma pure_readl:
  "pure_reads d \<Longrightarrow> bcm2835_mmc_readl d host reg = (fst (dev_readl d (hw host) reg), host)"
  by (simp add: pure_reads_def bcm2835_mmc_readl_def readl_def split_def)

lemma pure_readb:
  "pure_reads d \<Longrightarrow> snd (bcm2835_mmc_readb d host reg) = host"
  by (simp add: bcm2835_mmc_readb_def Let_def pure_readl)

lemma finish_command_resp_long:
  assumes "pure_reads d"
  shows "finish_command_resp d host rsp 0 4 =
           (rsp(0 := push_bit 8 (resp_chunk d host 3) OR resp_prev_byte d host 3,
                1 := push_bit 8 (resp_chunk d host 2) OR resp_prev_byte d host 2,
                2 := push_bit 8 (resp_chunk d host 1) OR resp_prev_byte d host 1,
                3 := push_bit 8 (resp_chunk d host 0)), host)"
proof -
  have r: "bcm2835_mmc_readl d host reg = (fst (bcm2835_mmc_readl d host reg), host)" for reg
    using pure_readl[OF assms, of host reg] by simp
  have b: "bcm2835_mmc_readb d host reg = (fst (bcm2835_mmc_readb d host reg), host)" for reg
    using pure_readb[OF assms, of host reg] by (metis prod.collapse)
  have n: "(4::nat) = Suc (Suc (Suc (Suc 0)))" by simp
  show ?thesis
    unfolding n finish_command_resp.simps
    by (simp add: split_def Let_def resp_chunk_def resp_prev_byte_def r[symmetric] b[symmetric]
        pure_readb[OF assms] pure_readl[OF assms] numeral_2_eq_2 numeral_3_eq_3)
qed

lemma resp_get_cmd_norm:
  "map_option resp (get_cmd (norm_request r) cref) = map_option resp (get_cmd r cref)"
  by (cases cref; cases "mrq_data r"; cases "sbc r")
    (auto simp: norm_request_def norm_cmd_def option.map_comp comp_def split: option.splits)

lemma step_rel_resp:
  assumes "step_rel a b"
  shows "map_option resp (cmd_obj b cref) = map_option resp (cmd_obj a cref)"
proof -
  from assms have n: "map_option norm_request (mrq b) = map_option norm_request (mrq a)"
    by (simp add: step_rel_def)
  show ?thesis
  proof (cases "mrq a")
    case None
    with n show ?thesis by (simp add: cmd_obj_def)
  next
    case (Some ra)
    with n obtain rb where rb: "mrq b = Some rb" "norm_request rb = norm_request ra"
      by (cases "mrq b") auto
    from resp_get_cmd_norm[of rb cref] resp_get_cmd_norm[of ra cref] rb(2)
    have "map_option resp (get_cmd rb cref) = map_option resp (get_cmd ra cref)" by simp
    with Some rb show ?thesis by (simp add: cmd_obj_def)
  qed
qed

lemma finish_command_long_resp:
  assumes "cmd host = Some cref" and "cmd_obj host cref = Some c"
    and "cmd_flags c AND MMC_RSP_PRESENT \<noteq> 0" and "cmd_flags c AND MMC_RSP_136 \<noteq> 0"
    and "pure_reads d"
    and "bcm2835_mmc_finish_command cfg d host = Some host'"
  shows "map_option resp (cmd_obj host' cref) =
           Some ((resp c)
                  (0 := push_bit 8 (resp_chunk d host 3) OR resp_prev_byte d host 3,
                   1 := push_bit 8 (resp_chunk d host 2) OR resp_prev_byte d host 2,
                   2 := push_bit 8 (resp_chunk d host 1) OR resp_prev_byte d host 1,
                   3 := push_bit 8 (resp_chunk d host 0)))"
proof -
  define rsp where "rsp = (resp c)
                  (0 := push_bit 8 (resp_chunk d host 3) OR resp_prev_byte d host 3,
                   Suc 0 := push_bit 8 (resp_chunk d host 2) OR resp_prev_byte d host 2,
                   2 := push_bit 8 (resp_chunk d host (Suc 0)) OR resp_prev_byte d host (Suc 0),
                   3 := push_bit 8 (resp_chunk d host 0))"
  have x: "map_option resp
             (cmd_obj (upd_cmd cref (\<lambda>x. x\<lparr>resp := rsp, cmd_error := 0\<rparr>) host) cref) = Some rsp"
    using assms(2) by simp
  have "step_rel (upd_cmd cref (\<lambda>x. x\<lparr>resp := rsp, cmd_error := 0\<rparr>) host) host'"
    using assms(1-4,6)
    unfolding bcm2835_mmc_finish_command_def
    by (auto simp: finish_command_resp_long[OF assms(5)] rsp_def[symmetric] Let_def
        intro!: step_intros
        elim!: step_rel_send_command step_rel_finish_data step_rel_transfer_dma
        split: Option.bind_splits if_splits)
  from step_rel_resp[OF this, of cref] x show ?thesis
    by (simp add: rsp_def)
qed

lemma pure_reads_mem_device: "pure_reads mem_device"
  by (simp add: pure_reads_def mem_device_def)

lemma c6_inputs:
  "cmd host_c6 = Some CMD"
  "cmd_obj host_c6 CMD =
     Some (command0\<lparr>opcode := 2, cmd_flags := MMC_RSP_PRESENT OR MMC_RSP_136 OR MMC_RSP_CRC\<rparr>)"
  "cmd_flags (command0\<lparr>opcode := 2, cmd_flags := MMC_RSP_PRESENT OR MMC_RSP_136 OR MMC_RSP_CRC\<rparr>)
     AND MMC_RSP_PRESENT \<noteq> 0"
  "cmd_flags (command0\<lparr>opcode := 2, cmd_flags := MMC_RSP_PRESENT OR MMC_RSP_136 OR MMC_RSP_CRC\<rparr>)
     AND MMC_RSP_136 \<noteq> 0"
  by (simp_all add: host_c6_def host0_def cmd_obj_def MMC_RSP_PRESENT_def MMC_RSP_136_def
      MMC_RSP_CRC_def)

lemma c6_returns: "\<exists>host'. bcm2835_mmc_finish_command config0 mem_device host_c6 = Some host'"
  using c6_inputs
  by (simp add: bcm2835_mmc_finish_command_def finish_command_resp_long[OF pure_reads_mem_device]
      Let_def)
    (simp add: host_c6_def host0_def cmd_data_def)

lemma c6_registers:
  "resp_chunk mem_device host_c6 0 = 0x11223344" "resp_chunk mem_device host_c6 1 = 0x55667788"
  "resp_chunk mem_device host_c6 2 = 0x99AABBCC" "resp_chunk mem_device host_c6 3 = 0x00DDEEFF"
  "resp_prev_byte mem_device host_c6 0 = 0xAB" "resp_prev_byte mem_device host_c6 1 = 0x11"
  "resp_prev_byte mem_device host_c6 2 = 0x55" "resp_prev_byte mem_device host_c6 3 = 0x99"
  "resp_chunk mem_device host_c6 (Suc 0) = 0x55667788"
  "resp_prev_byte mem_device host_c6 (Suc 0) = 0x11"
  by (simp_all add: resp_chunk_def resp_prev_byte_def bcm2835_mmc_readl_def readl_def
      bcm2835_mmc_readb_def Let_def mem_device_def host_c6_def host0_def SDHCI_RESPONSE_def
      SDHCI_TRANSFER_MODE_def)

text \<open>
  C6, as stated, fails for the last of the four words: \<open>resp[3]\<close> is the chunk at
  \<open>SDHCI_RESPONSE\<close> shifted left by 8 bits, and the byte before it (the top byte of the
  command register word, here \<open>0xAB\<close>) is not OR-ed in.
\<close>

theorem long_response_last_word_has_no_byte:
  "result_resp (bcm2835_mmc_finish_command config0 mem_device host_c6) CMD 3 = Some 0x22334400 \<and>
   push_bit 8 (resp_chunk mem_device host_c6 0) OR resp_prev_byte mem_device host_c6 0 =
     0x223344AB"
proof -
  from c6_returns obtain host' where
    r: "bcm2835_mmc_finish_command config0 mem_device host_c6 = Some host'" ..
  from finish_command_long_resp[OF c6_inputs pure_reads_mem_device r]
  show ?thesis
    by (auto simp: result_resp_def r c6_registers)
qed

text \<open>
  C6, amended. For a command with a long response, on a device whose reads have no side
  effect, when \<open>bcm2835_mmc_finish_command\<close> returns, the response words of the command
  are: \<open>resp[i]\<close> for \<open>i = 0, 1, 2\<close> is the 32-bit chunk at
  \<open>SDHCI_RESPONSE + (3 - i) * 4\<close> shifted left by 8 bits, OR-ed with the byte just below
  that chunk, read separately; \<open>resp[3]\<close> is the chunk at \<open>SDHCI_RESPONSE\<close> shifted
  left by 8 bits, with nothing OR-ed in.
\<close>

theorem finish_command_long_response:
  assumes "cmd host = Some cref" and "cmd_obj host cref = Some c"
    and "cmd_flags c AND MMC_RSP_PRESENT \<noteq> 0" and "cmd_flags c AND MMC_RSP_136 \<noteq> 0"
    and "pure_reads d"
    and "bcm2835_mmc_finish_command cfg d host = Some host'"
  shows "map_option resp (cmd_obj host' cref) =
           Some ((resp c)
                  (0 := push_bit 8 (resp_chunk d host 3) OR resp_prev_byte d host 3,
                   1 := push_bit 8 (resp_chunk d host 2) OR resp_prev_byte d host 2,
                   2 := push_bit 8 (resp_chunk d host 1) OR resp_prev_byte d host 1,
                   3 := push_bit 8 (resp_chunk d host 0)))"
  using assms by (rule finish_command_long_resp)

theorem finish_command_long_response_witness:
  "cmd host_c6 = Some CMD \<and> pure_reads mem_device \<and>
   result_resp (bcm2835_mmc_finish_command config0 mem_device host_c6) CMD 0 = Some 0xDDEEFF99 \<and>
   result_resp (bcm2835_mmc_finish_command config0 mem_device host_c6) CMD 1 = Some 0xAABBCC55 \<and>
   result_resp (bcm2835_mmc_finish_command config0 mem_device host_c6) CMD 2 = Some 0x66778811 \<and>
   result_resp (bcm2835_mmc_finish_command config0 mem_device host_c6) CMD 3 = Some 0x22334400"
proof -
  from c6_returns obtain host' where
    r: "bcm2835_mmc_finish_command config0 mem_device host_c6 = Some host'" ..
  from finish_command_long_response[OF c6_inputs pure_reads_mem_device r]
  show ?thesis
    using c6_inputs(1) pure_reads_mem_device
    by (auto simp: result_resp_def r c6_registers)
qed

subsection \<open>Interrupt dispatcher\<close>

lemma irq_loop_count:
  "fst (irq_loop cfg d host intmask unexpected result cardint max_loops) \<le> max max_loops 1 \<and>
   1 \<le> fst (irq_loop cfg d host intmask unexpected result cardint max_loops)"
proof (induction cfg d host intmask unexpected result cardint max_loops rule: irq_loop.induct)
  case (1 cfg d host intmask unexpected result cardint max_loops)
  show ?case
  proof (cases "irq_body cfg d host intmask unexpected result cardint")
    case None
    then show ?thesis by (subst (1 2) irq_loop.simps) simp
  next
    case (Some p)
    obtain host1 unexpected1 result1 cardint1 where
      p: "p = (host1, unexpected1, result1, cardint1)" by (cases p) auto
    define r where "r = bcm2835_mmc_readl d host1 SDHCI_INT_STATUS"
    show ?thesis
    proof (cases "fst r \<noteq> 0 \<and> max_loops - 1 \<noteq> 0")
      case False
      with Some p show ?thesis
        by (subst (1 2) irq_loop.simps) (auto simp: Let_def r_def)
    next
      case True
      note IH = "1.IH"[OF Some p[symmetric] refl refl r_def True]
      from Some p True IH show ?thesis
        by (subst (1 2) irq_loop.simps) (auto simp: Let_def r_def[symmetric] split_def)
    qed
  qed
qed

text \<open>
  C8. Whatever the device answers (its status may never read zero), one call of
  \<open>bcm2835_mmc_irq\<close> passes through the body of its loop at most 16 times; the call
  returns, as every loop of the model is a terminating recursion. When the first read
  of the status is all-zero or all-ones, the body is not entered at all: the result is
  \<open>IRQ_NONE\<close> and nothing but that read has happened.
\<close>

theorem irq_bounded:
  "fst (bcm2835_mmc_irq cfg d host) \<le> 16 \<and>
   (fst (dev_readl d (hw host) SDHCI_INT_STATUS) = 0 \<or>
    fst (dev_readl d (hw host) SDHCI_INT_STATUS) = 0xffffffff \<longrightarrow>
      bcm2835_mmc_irq cfg d host =
        (0, Some (IRQ_NONE, host\<lparr>hw := snd (dev_readl d (hw host) SDHCI_INT_STATUS)\<rparr>)))"
proof -
  obtain intmask h1 where r: "bcm2835_mmc_readl d host SDHCI_INT_STATUS = (intmask, h1)"
    by (cases "bcm2835_mmc_readl d host SDHCI_INT_STATUS") auto
  then have i: "intmask = fst (dev_readl d (hw host) SDHCI_INT_STATUS)"
    "h1 = host\<lparr>hw := snd (dev_readl d (hw host) SDHCI_INT_STATUS)\<rparr>"
    by (auto simp: bcm2835_mmc_readl_def readl_def split_def Let_def)
  have "fst (bcm2835_mmc_irq cfg d host) \<le> 16"
    using irq_loop_count[of cfg d h1 intmask 0 IRQ_NONE False 16]
    by (auto simp: bcm2835_mmc_irq_def r Let_def split_def)
  moreover have "bcm2835_mmc_irq cfg d host = (0, Some (IRQ_NONE, h1))"
    if "intmask = 0 \<or> intmask = 0xffffffff"
    using that by (auto simp: bcm2835_mmc_irq_def r)
  ultimately show ?thesis unfolding i by blast
qed

lemma irq_body_bus_power:
  "irq_body cfg (const_device SDHCI_INT_BUS_POWER) host SDHCI_INT_BUS_POWER unexpected result
     cardint =
   Some (bcm2835_mmc_writel (const_device SDHCI_INT_BUS_POWER) host SDHCI_INT_BUS_POWER
           SDHCI_INT_STATUS,
         unexpected, (if result = IRQ_NONE then IRQ_HANDLED else result), cardint)"
  by (simp add: irq_body_def Let_def SDHCI_INT_CMD_MASK_def SDHCI_INT_DATA_MASK_def
      SDHCI_INT_BUS_POWER_def SDHCI_INT_RESPONSE_def SDHCI_INT_TIMEOUT_def SDHCI_INT_CRC_def
      SDHCI_INT_END_BIT_def SDHCI_INT_INDEX_def SDHCI_INT_DATA_END_def SDHCI_INT_DMA_END_def
      SDHCI_INT_DATA_AVAIL_def SDHCI_INT_SPACE_AVAIL_def SDHCI_INT_DATA_TIMEOUT_def
      SDHCI_INT_DATA_CRC_def SDHCI_INT_DATA_END_BIT_def SDHCI_INT_ADMA_ERROR_def
      SDHCI_INT_BLK_GAP_def SDHCI_INT_CARD_INT_def SDHCI_INT_CARD_INSERT_def
      SDHCI_INT_CARD_REMOVE_def SDHCI_INT_ERROR_def)

text \<open>
  The bound is reached: against a device whose status always shows the bus-power bit,
  the loop makes all the passes its counter allows.
\<close>

lemma irq_loop_storm:
  "fst (irq_loop cfg (const_device SDHCI_INT_BUS_POWER) host SDHCI_INT_BUS_POWER unexpected
          result cardint (Suc n)) = Suc n"
proof (induction n arbitrary: host unexpected result cardint)
  case 0
  show ?case
    by (subst irq_loop.simps) (simp add: irq_body_bus_power Let_def)
next
  case (Suc n)
  have r: "bcm2835_mmc_readl (const_device SDHCI_INT_BUS_POWER) h SDHCI_INT_STATUS =
           (SDHCI_INT_BUS_POWER, h)" for h :: "unit bcm2835_host"
    by (simp add: bcm2835_mmc_readl_def readl_def const_device_def)
  have nz: "SDHCI_INT_BUS_POWER \<noteq> 0" by (simp add: SDHCI_INT_BUS_POWER_def)
  show ?case
    by (subst irq_loop.simps) (simp add: irq_body_bus_power Let_def r nz Suc.IH split_def)
qed

theorem irq_bounded_witness:
  "fst (bcm2835_mmc_irq config0 (const_device SDHCI_INT_BUS_POWER) (host0 ())) = 16 \<and>
   fst (bcm2835_mmc_irq config0 (const_device SDHCI_INT_BUS_POWER) (host0 ())) \<le> 16 \<and>
   fst (dev_readl (const_device 0) (hw (host0 ())) SDHCI_INT_STATUS) = 0 \<and>
   bcm2835_mmc_irq config0 (const_device 0) (host0 ()) = (0, Some (IRQ_NONE, host0 ())) \<and>
   fst (dev_readl (const_device 0xffffffff) (hw (host0 ())) SDHCI_INT_STATUS) = 0xffffffff \<and>
   bcm2835_mmc_irq config0 (const_device 0xffffffff) (host0 ()) = (0, Some (IRQ_NONE, host0 ()))"
proof -
  have r: "bcm2835_mmc_readl (const_device v) h reg = (v, h)" for h :: "unit bcm2835_host" and v reg
    by (simp add: bcm2835_mmc_readl_def readl_def const_device_def)
  have nz: "SDHCI_INT_BUS_POWER \<noteq> 0" "SDHCI_INT_BUS_POWER \<noteq> 0xffffffff"
    by (simp_all add: SDHCI_INT_BUS_POWER_def)
  have s: "fst (bcm2835_mmc_irq config0 (const_device SDHCI_INT_BUS_POWER) (host0 ())) = 16"
    using irq_loop_storm[of config0 "host0 ()" 0 IRQ_NONE False 15]
    by (simp add: bcm2835_mmc_irq_def r split_def Let_def nz)
  have z: "dev_readl (const_device v) (hw (host0 ())) SDHCI_INT_STATUS = (v, ())" for v
    by (simp add: const_device_def)
  from irq_bounded[of config0 "const_device SDHCI_INT_BUS_POWER" "host0 ()"]
    irq_bounded[of config0 "const_device 0" "host0 ()"]
    irq_bounded[of config0 "const_device 0xffffffff" "host0 ()"] s z
  show ?thesis by simp
qed

subsection \<open>PIO block transfer through the buffer register\<close>

lemma fifo_bytes_simps [simp]:
  "fifo_bytes [] = []" "fifo_bytes (w # q) = word_bytes w @ fifo_bytes q"
  "fifo_bytes (q @ q') = fifo_bytes q @ fifo_bytes q'"
  by (simp_all add: fifo_bytes_def)

lemma length_word_bytes [simp]: "length (word_bytes w) = 4"
  by (simp add: word_bytes_def)

lemma le_word_snoc:
  "length p < 4 \<Longrightarrow> le_word (p @ [b]) = le_word p OR push_bit (length p * 8) (ucast b)"
proof (induction p)
  case Nil
  then show ?case by simp
next
  case (Cons a p)
  then show ?case
    by (simp add: push_bit_or or.assoc push_bit_add[symmetric] add.commute
        flip: push_bit_push_bit) 
qed

lemma ucast_and_ff: "(ucast ((w :: u32) AND 0xFF) :: u8) = ucast w"
proof -
  have m: "(0xFF :: u32) = mask 8" by (simp add: mask_eq_exp_minus_1)
  show ?thesis
    unfolding m by (rule bit_word_eqI) (auto simp: bit_simps)
qed

lemma u8_high_bits:
  "\<not> bit (a :: u8) (8 + n)" "\<not> bit a (16 + n)" "\<not> bit a (24 + n)"
  using bit_imp_le_length[of a "8 + n"] bit_imp_le_length[of a "16 + n"]
    bit_imp_le_length[of a "24 + n"]
  by auto

lemma word_bytes_le_word4:
  "word_bytes (le_word [a, b, c, e]) = [a, b, c, e]"
  unfolding word_bytes_def le_word.simps
  by (auto intro!: bit_word_eqI simp: bit_simps u8_high_bits)

lemma le_word_zeros: "le_word (g @ replicate k 0) = le_word g"
  by (induction g) (simp_all, induction k, simp_all)

lemma word_bytes_le_word:
  assumes "length g \<le> 4"
  shows "word_bytes (le_word g) = g @ replicate (4 - length g) 0"
proof -
  define g4 where "g4 = g @ replicate (4 - length g) 0"
  have "length g4 = 4" using assms by (simp add: g4_def)
  then obtain a b c e where "g4 = [a, b, c, e]"
    by (cases g4; cases "tl g4"; cases "tl (tl g4)"; cases "tl (tl (tl g4))") auto
  then have "word_bytes (le_word g4) = g4" by (simp only: word_bytes_le_word4)
  then show ?thesis by (simp add: g4_def le_word_zeros)
qed

lemma fifo_readl_buffer:
  "bcm2835_mmc_readl fifo_device host SDHCI_BUFFER =
     (case hw host of [] \<Rightarrow> (0, host\<lparr>hw := []\<rparr>) | w # ws \<Rightarrow> (w, host\<lparr>hw := ws\<rparr>))"
  by (simp add: bcm2835_mmc_readl_def readl_def fifo_device_def split: list.splits)

lemma fifo_raw_writel_buffer:
  "hw (mmc_raw_writel fifo_device host v SDHCI_BUFFER) = hw host @ [v]"
  by (simp add: mmc_raw_writel_def writel_def udelay_def fifo_device_def Let_def)

lemma avail_step:
  assumes "1 \<le> c" and "c \<le> 4"
  shows "avail s c q = ucast s # avail (drop_bit 8 s) (c - 1) q"
proof -
  from assms have "c = 1 \<or> c = 2 \<or> c = 3 \<or> c = 4" by arith
  then show ?thesis
    by (auto simp: avail_def word_bytes_def numeral_2_eq_2 numeral_3_eq_3
        eval_nat_numeral)
qed

lemma avail_refill: "avail s 0 (w # q) = avail w 4 q"
  by (simp add: avail_def)

lemma read_bytes_fifo:
  assumes "chunk \<le> 4" and "len \<le> length (avail scratch chunk (hw host))"
  shows "\<exists>s' c' q'. read_bytes fifo_device host len scratch chunk =
            (take len (avail scratch chunk (hw host)), s', c', host\<lparr>hw := q'\<rparr>) \<and>
          c' \<le> 4 \<and> avail s' c' q' = drop len (avail scratch chunk (hw host))"
  using assms
proof (induction len arbitrary: host scratch chunk)
  case 0
  have "host = host\<lparr>hw := hw host\<rparr>" by simp
  with 0 show ?case by (metis (no_types) drop_0 read_bytes.simps(1) take_0)
next
  case (Suc len)
  define s1 where "s1 = (if chunk = 0 then hd (hw host) else scratch)"
  define c1 where "c1 = (if chunk = 0 then 4 else chunk)"
  define h1 where "h1 = (if chunk = 0 then host\<lparr>hw := tl (hw host)\<rparr> else host)"
  have ne: "chunk = 0 \<Longrightarrow> hw host \<noteq> []"
    using Suc.prems(2) by (auto simp: avail_def)
  have pre: "(if chunk = 0
              then (let (v, host) = bcm2835_mmc_readl fifo_device host SDHCI_BUFFER in (v, 4, host))
              else (scratch, chunk, host)) = (s1, c1, h1)"
    using ne by (cases "hw host") (auto simp: fifo_readl_buffer s1_def c1_def h1_def)
  have av: "avail s1 c1 (hw h1) = avail scratch chunk (hw host)"
    using ne by (cases "hw host") (auto simp: s1_def c1_def h1_def avail_refill)
  have c1: "1 \<le> c1" "c1 \<le> 4" using Suc.prems(1) by (auto simp: c1_def)
  have st: "avail s1 c1 (hw h1) = ucast s1 # avail (drop_bit 8 s1) (c1 - 1) (hw h1)"
    by (rule avail_step[OF c1])
  have eq: "avail scratch chunk (hw host) = ucast s1 # avail (drop_bit 8 s1) (c1 - 1) (hw h1)"
    using av st by simp
  have "len \<le> length (avail (drop_bit 8 s1) (c1 - 1) (hw h1))"
    using Suc.prems(2) unfolding eq by simp
  from Suc.IH[OF _ this] c1 obtain s' c' q' where
    ih: "read_bytes fifo_device h1 len (drop_bit 8 s1) (c1 - 1) =
           (take len (avail (drop_bit 8 s1) (c1 - 1) (hw h1)), s', c', h1\<lparr>hw := q'\<rparr>)"
      "c' \<le> 4" "avail s' c' q' = drop len (avail (drop_bit 8 s1) (c1 - 1) (hw h1))"
    by force
  have hh: "h1\<lparr>hw := q'\<rparr> = host\<lparr>hw := q'\<rparr>" by (simp add: h1_def)
  have res: "read_bytes fifo_device host (Suc len) scratch chunk =
          (ucast s1 # take len (avail (drop_bit 8 s1) (c1 - 1) (hw h1)), s', c', host\<lparr>hw := q'\<rparr>)"
    unfolding read_bytes.simps pre using ih(1) by (simp add: hh ucast_and_ff)
  have tk: "take (Suc len) (avail scratch chunk (hw host)) =
              ucast s1 # take len (avail (drop_bit 8 s1) (c1 - 1) (hw h1))"
    unfolding eq by simp
  have dr: "drop (Suc len) (avail scratch chunk (hw host)) =
              drop len (avail (drop_bit 8 s1) (c1 - 1) (hw h1))"
    unfolding eq by simp
  show ?case unfolding tk dr using res ih(2,3) by blast
qed

lemma sg_consume_todo:
  assumes "sg_todo m = buf # rs" and "length bs = len" and "len \<le> length buf"
  shows "sg_done (sg_miter_consume m bs) = sg_done m @ [bs]"
    and "concat (sg_todo (sg_miter_consume m bs)) = drop len (concat (sg_todo m))"
    and "length (sg_todo (sg_miter_consume m bs)) \<le> length (sg_todo m)"
    and "len = length buf \<Longrightarrow> length (sg_todo (sg_miter_consume m bs)) < length (sg_todo m)"
  using assms by (auto simp: sg_miter_consume_def)

lemma read_block_loop_fifo:
  assumes "chunk \<le> 4" and "blksize \<le> length (avail scratch chunk (hw host))"
    and "blksize \<le> length (concat (sg_todo (sg_miter host)))"
  shows "\<exists>host'. read_block_loop fifo_device host blksize scratch chunk = Some host' \<and>
           concat (sg_done (sg_miter host')) =
             concat (sg_done (sg_miter host)) @ take blksize (avail scratch chunk (hw host))"
  using assms
proof (induction "blksize + length (sg_todo (sg_miter host))"
    arbitrary: host blksize scratch chunk rule: less_induct)
  case less
  show ?case
  proof (cases "blksize = 0")
    case True
    then show ?thesis by (simp add: read_block_loop.simps)
  next
    case False
    with less.prems(3) obtain buf rs where todo: "sg_todo (sg_miter host) = buf # rs"
      by (cases "sg_todo (sg_miter host)") auto
    define len where "len = min (length buf) blksize"
    let ?av = "avail scratch chunk (hw host)"
    have len_av: "len \<le> length ?av" using less.prems(2) by (simp add: len_def)
    from read_bytes_fifo[OF less.prems(1) len_av] obtain s' c' q' where
      rb: "read_bytes fifo_device host len scratch chunk = (take len ?av, s', c', host\<lparr>hw := q'\<rparr>)"
        "c' \<le> 4" "avail s' c' q' = drop len ?av"
      by blast
    define host2 where
      "host2 = host\<lparr>hw := q', sg_miter := sg_miter_consume (sg_miter host) (take len ?av)\<rparr>"
    have lbs: "length (take len ?av) = len" using len_av by simp
    have lb: "len \<le> length buf" by (simp add: len_def)
    note cons = sg_consume_todo[OF todo lbs lb]
    have step: "read_block_loop fifo_device host blksize scratch chunk =
                  read_block_loop fifo_device host2 (blksize - len) s' c'"
      using False todo rb(1)
      by (subst read_block_loop.simps)
        (simp add: sg_miter_next_def Let_def len_def[symmetric] host2_def)
    have dec: "blksize - len + length (sg_todo (sg_miter host2)) <
               blksize + length (sg_todo (sg_miter host))"
    proof (cases "len = 0")
      case True
      with False have "len = length buf" by (auto simp: len_def min_def split: if_splits)
      from cons(4)[OF this] show ?thesis by (simp add: host2_def)
    next
      case nz: False
      have "len \<le> blksize" by (simp add: len_def)
      with nz cons(3) show ?thesis by (simp add: host2_def)
    qed
    have p2: "blksize - len \<le> length (avail s' c' (hw host2))"
      using less.prems(2) rb(3) by (simp add: host2_def)
    have p3: "blksize - len \<le> length (concat (sg_todo (sg_miter host2)))"
      using less.prems(3) cons(2) by (simp add: host2_def)
    from less.hyps[OF dec rb(2) p2 p3] obtain host' where
      ih: "read_block_loop fifo_device host2 (blksize - len) s' c' = Some host'"
        "concat (sg_done (sg_miter host')) =
           concat (sg_done (sg_miter host2)) @ take (blksize - len) (avail s' c' (hw host2))"
      by blast
    have "len \<le> blksize" by (simp add: len_def)
    then have "take blksize ?av = take len ?av @ take (blksize - len) (drop len ?av)"
      by (metis le_add_diff_inverse take_add)
    with ih cons(1) rb(3) step show ?thesis
      by (simp add: host2_def)
  qed
qed

lemma write_bytes_fifo:
  assumes "length p < 4"
  shows "\<exists>p' z host'.
           write_bytes fifo_device host buf bl (le_word p) (length p) =
             (le_word p', length p', host') \<and>
           length p' < 4 \<and> length z < 4 \<and>
           fifo_bytes (hw host') @ p' = fifo_bytes (hw host) @ p @ buf @ z \<and>
           (bl = 0 \<and> buf \<noteq> [] \<longrightarrow> p' = []) \<and> (z \<noteq> [] \<longrightarrow> bl = 0 \<and> buf \<noteq> []) \<and>
           (buf = [] \<longrightarrow> p' = p \<and> host' = host)"
  using assms
proof (induction buf arbitrary: p host)
  case Nil
  then show ?case by simp
next
  case (Cons b buf)
  define p1 where "p1 = p @ [b]"
  have s1: "le_word p OR push_bit (length p * 8) (ucast b) = le_word p1"
    using Cons.prems by (simp add: p1_def le_word_snoc)
  have l1: "length p + 1 = length p1" "length p1 \<le> 4"
    using Cons.prems by (simp_all add: p1_def)
  show ?case
  proof (cases "length p1 = 4 \<or> (length buf = 0 \<and> bl = 0)")
    case True
    define host1 where "host1 = mmc_raw_writel fifo_device host (le_word p1) SDHCI_BUFFER"
    have f1: "fifo_bytes (hw host1) = fifo_bytes (hw host) @ p1 @ replicate (4 - length p1) 0"
      by (simp add: host1_def fifo_raw_writel_buffer word_bytes_le_word[OF l1(2)])
    from Cons.IH[of "[]" host1] obtain p' z host' where
      ih: "write_bytes fifo_device host1 buf bl 0 0 = (le_word p', length p', host')"
        "length p' < 4" "fifo_bytes (hw host') @ p' = fifo_bytes (hw host1) @ buf @ z"
        "bl = 0 \<and> buf \<noteq> [] \<longrightarrow> p' = []" "z \<noteq> [] \<longrightarrow> bl = 0 \<and> buf \<noteq> []"
        "buf = [] \<longrightarrow> p' = [] \<and> host' = host1" "length z < 4"
      by auto
    have w: "write_bytes fifo_device host (b # buf) bl (le_word p) (length p) =
               (le_word p', length p', host')"
      using True ih(1) l1(1) by (simp add: s1 Let_def host1_def)
    show ?thesis
    proof (cases "length p1 = 4")
      case True
      with f1 ih have
        "fifo_bytes (hw host') @ p' = fifo_bytes (hw host) @ p @ (b # buf) @ z"
        by (simp add: p1_def)
      moreover have "bl = 0 \<longrightarrow> p' = []" using ih(4,6) by (cases buf) auto
      ultimately show ?thesis using w ih(2,5,7) by blast
    next
      case False
      with \<open>length p1 = 4 \<or> (length buf = 0 \<and> bl = 0)\<close> have e: "buf = []" "bl = 0" by auto
      with ih(6) have "p' = []" "host' = host1" by auto
      with f1 e have
        "fifo_bytes (hw host') @ p' =
           fifo_bytes (hw host) @ p @ (b # buf) @ replicate (4 - length p1) 0"
        by (simp add: p1_def)
      moreover have "length (replicate (4 - length p1) (0::u8)) < 4"
        by (simp add: p1_def)
      ultimately show ?thesis using w \<open>p' = []\<close> e
        by (intro exI[of _ p'] exI[of _ "replicate (4 - length p1) 0"] exI[of _ host']) simp
    qed
  next
    case False
    then have l: "length p1 < 4" using l1(2) by auto
    from Cons.IH[OF l, of host] obtain p' z host' where
      ih: "write_bytes fifo_device host buf bl (le_word p1) (length p1) =
             (le_word p', length p', host')"
        "length p' < 4" "fifo_bytes (hw host') @ p' = fifo_bytes (hw host) @ p1 @ buf @ z"
        "bl = 0 \<and> buf \<noteq> [] \<longrightarrow> p' = []" "z \<noteq> [] \<longrightarrow> bl = 0 \<and> buf \<noteq> []"
        "length z < 4"
      by blast
    have w: "write_bytes fifo_device host (b # buf) bl (le_word p) (length p) =
               (le_word p', length p', host')"
      using False ih(1) l1(1) by (auto simp: s1 Let_def)
    have "bl = 0 \<longrightarrow> p' = []" using False ih(4) by auto
    moreover have "fifo_bytes (hw host') @ p' = fifo_bytes (hw host) @ p @ (b # buf) @ z"
      using ih(3) by (simp add: p1_def)
    ultimately show ?thesis using w ih(2,5,6) by blast
  qed
qed

lemma write_block_loop_fifo:
  assumes "length p < 4" and "blksize \<le> length (concat (sg_todo (sg_miter host)))"
    and "blksize = 0 \<longrightarrow> p = []"
  shows "\<exists>host' z. write_block_loop fifo_device host blksize (le_word p) (length p) = Some host' \<and>
           length z < 4 \<and>
           fifo_bytes (hw host') =
             fifo_bytes (hw host) @ p @ take blksize (concat (sg_todo (sg_miter host))) @ z"
  using assms
proof (induction "blksize + length (sg_todo (sg_miter host))"
    arbitrary: host blksize p rule: less_induct)
  case less
  show ?case
  proof (cases "blksize = 0")
    case True
    with less.prems(3) show ?thesis by (simp add: write_block_loop.simps)
  next
    case False
    with less.prems(2) obtain buf rs where todo: "sg_todo (sg_miter host) = buf # rs"
      by (cases "sg_todo (sg_miter host)") auto
    define len where "len = min (length buf) blksize"
    define bytes where "bytes = take len buf"
    have lb: "len \<le> length buf" "len \<le> blksize" by (simp_all add: len_def)
    have lbs: "length bytes = len" using lb by (simp add: bytes_def)
    from write_bytes_fifo[OF less.prems(1), of host bytes "blksize - len"] obtain p' z host1 where
      wb: "write_bytes fifo_device host bytes (blksize - len) (le_word p) (length p) =
             (le_word p', length p', host1)"
        "length p' < 4" "fifo_bytes (hw host1) @ p' = fifo_bytes (hw host) @ p @ bytes @ z"
        "blksize - len = 0 \<and> bytes \<noteq> [] \<longrightarrow> p' = []"
        "z \<noteq> [] \<longrightarrow> blksize - len = 0 \<and> bytes \<noteq> []"
        "bytes = [] \<longrightarrow> p' = p \<and> host1 = host" "length z < 4"
      by blast
    have m1: "sg_miter host1 = sg_miter host"
      using write_bytes_sg_miter[OF wb(1)] by simp
    define host2 where
      "host2 = host1\<lparr>sg_miter := sg_miter_consume (sg_miter host) bytes\<rparr>"
    note cons = sg_consume_todo[OF todo lbs lb(1)]
    have step: "write_block_loop fifo_device host blksize (le_word p) (length p) =
                  write_block_loop fifo_device host2 (blksize - len) (le_word p') (length p')"
      using False todo wb(1)
      by (subst write_block_loop.simps)
        (simp add: sg_miter_next_def Let_def len_def[symmetric] bytes_def[symmetric] host2_def m1)
    have tk: "take blksize (concat (sg_todo (sg_miter host))) =
              bytes @ take (blksize - len) (concat (sg_todo (sg_miter host2)))"
    proof -
      have "take blksize (concat (sg_todo (sg_miter host))) =
              take len (concat (sg_todo (sg_miter host))) @
              take (blksize - len) (drop len (concat (sg_todo (sg_miter host))))"
        using lb(2) by (metis le_add_diff_inverse take_add)
      moreover have "take len (concat (sg_todo (sg_miter host))) = bytes"
        using lb(1) by (simp add: todo bytes_def)
      ultimately show ?thesis using cons(2) by (simp add: host2_def)
    qed
    have p3: "blksize - len = 0 \<longrightarrow> p' = []"
    proof (cases "bytes = []")
      case True
      with lbs have "len = 0" by simp
      with False show ?thesis by simp
    next
      case False
      with wb(4) show ?thesis by simp
    qed
    have h2: "hw host2 = hw host1" by (simp add: host2_def)
    show ?thesis
    proof (cases "blksize - len = 0")
      case True
      with p3 have "p' = []" by simp
      with step True have
        "write_block_loop fifo_device host blksize (le_word p) (length p) = Some host2"
        by (simp add: write_block_loop.simps)
      moreover have "fifo_bytes (hw host2) =
          fifo_bytes (hw host) @ p @ take blksize (concat (sg_todo (sg_miter host))) @ z"
        using wb(3) \<open>p' = []\<close> True by (simp add: h2 tk)
      ultimately show ?thesis using wb(7) by blast
    next
      case nz: False
      with wb(5) have z: "z = []" by auto
      have dec: "blksize - len + length (sg_todo (sg_miter host2)) <
                 blksize + length (sg_todo (sg_miter host))"
      proof (cases "len = 0")
        case True
        with False have "len = length buf" by (auto simp: len_def min_def split: if_splits)
        from cons(4)[OF this] show ?thesis by (simp add: host2_def)
      next
        case nz: False
        with lb(2) cons(3) show ?thesis by (simp add: host2_def)
      qed
      have p2: "blksize - len \<le> length (concat (sg_todo (sg_miter host2)))"
        using less.prems(2) cons(2) by (simp add: host2_def)
      from less.hyps[OF dec wb(2) p2 p3] obtain host' z' where
        ih: "write_block_loop fifo_device host2 (blksize - len) (le_word p') (length p') = Some host'"
          "length z' < 4"
          "fifo_bytes (hw host') =
             fifo_bytes (hw host2) @ p' @ take (blksize - len) (concat (sg_todo (sg_miter host2))) @ z'"
        by blast
      from wb(3) ih(3) h2 tk z have
        "fifo_bytes (hw host') =
           fifo_bytes (hw host) @ p @ take blksize (concat (sg_todo (sg_miter host))) @ z'"
        by (metis append.assoc append_Nil2)
      with step ih(1,2) show ?thesis by auto
    qed
  qed
qed

lemma length_fifo_bytes: "length (fifo_bytes q) = 4 * length q"
  by (induction q) simp_all

lemma avail_empty: "avail 0 0 q = fifo_bytes q"
  by (simp add: avail_def)

text \<open>
  C5. A block written by the PIO write path and read back by the PIO read path arrives
  unchanged, whatever its size (the sizes 1..512 included, a multiple of 4 or not) and
  however the source and the destination are cut into regions, provided the regions hold
  at least one block. The device is the FIFO behind the buffer register: the writer fills
  it from the regions \<open>src\<close>, the reader empties it into the regions \<open>dst\<close>. The writer
  issues one register write per 4 bytes and one more for a trailing partial word, and the
  words carry the bytes of the block least significant byte first.
\<close>

theorem pio_block_round_trip:
  assumes "host_data hostw = Some dtw" and "host_data hostr = Some dtr"
    and "blksz dtr = blksz dtw"
    and "sg_miter hostw = sg_miter_start src" and "sg_miter hostr = sg_miter_start dst"
    and "unat (blksz dtw) \<le> length (concat src)" and "unat (blksz dtw) \<le> length (concat dst)"
    and "hw hostw = []"
  shows "\<exists>h1 h2.
           bcm2835_bcm2835_mmc_write_block_pio fifo_device hostw = Some h1 \<and>
           length (hw h1) = (unat (blksz dtw) + 3) div 4 \<and>
           take (unat (blksz dtw)) (fifo_bytes (hw h1)) = take (unat (blksz dtw)) (concat src) \<and>
           bcm2835_bcm2835_mmc_read_block_pio fifo_device (hostr\<lparr>hw := hw h1\<rparr>) = Some h2 \<and>
           concat (sg_done (sg_miter h2)) = take (unat (blksz dtw)) (concat src)"
proof -
  define n where "n = unat (blksz dtw)"
  have "n \<le> length (concat (sg_todo (sg_miter hostw)))"
    using assms(4,6) by (simp add: n_def sg_miter_start_def)
  from write_block_loop_fifo[of "[]" n hostw, simplified, OF this] obtain h1 z where
    w: "write_block_loop fifo_device hostw n 0 0 = Some h1" "length z < 4"
      "fifo_bytes (hw h1) = take n (concat src) @ z"
    using assms(4,8) by (auto simp: sg_miter_start_def)
  have wr: "bcm2835_bcm2835_mmc_write_block_pio fifo_device hostw = Some h1"
    using assms(1) w(1) by (simp add: bcm2835_bcm2835_mmc_write_block_pio_def n_def)
  have ln: "length (take n (concat src)) = n" using assms(6) by (simp add: n_def)
  have "4 * length (hw h1) = n + length z"
    using arg_cong[OF w(3), of length] ln by (simp add: length_fifo_bytes)
  with w(2) have cnt: "length (hw h1) = (n + 3) div 4" by arith
  have tk: "take n (fifo_bytes (hw h1)) = take n (concat src)"
    using ln by (simp add: w(3))
  define hr where "hr = hostr\<lparr>hw := hw h1\<rparr>"
  have r1: "n \<le> length (avail 0 0 (hw hr))"
    using ln by (simp add: avail_empty hr_def w(3))
  have r2: "n \<le> length (concat (sg_todo (sg_miter hr)))"
    using assms(5,7) by (simp add: hr_def n_def sg_miter_start_def)
  from read_block_loop_fifo[of 0 n 0 hr, OF _ r1 r2] obtain h2 where
    r: "read_block_loop fifo_device hr n 0 0 = Some h2"
      "concat (sg_done (sg_miter h2)) =
         concat (sg_done (sg_miter hr)) @ take n (avail 0 0 (hw hr))"
    by auto
  have "host_data hr = Some dtr"
    using assms(2) by (simp add: hr_def host_data_def split: option.splits data_ref.splits)
  then have rd: "bcm2835_bcm2835_mmc_read_block_pio fifo_device hr = Some h2"
    using assms(3) r(1) by (simp add: bcm2835_bcm2835_mmc_read_block_pio_def n_def)
  have "concat (sg_done (sg_miter h2)) = take n (concat src)"
    using r(2) assms(5) tk by (simp add: avail_empty hr_def sg_miter_start_def)
  with wr cnt tk rd show ?thesis unfolding n_def hr_def by blast
qed

lemma c5_inputs:
  "host_data (host_c5 rs) = Some (data0\<lparr>blksz := 5\<rparr>)"
  "sg_miter (host_c5 rs) = sg_miter_start rs"
  "hw (host_c5 rs) = []"
  by (simp_all add: host_c5_def host0_def host_data_def)

theorem pio_block_round_trip_witness:
  "\<exists>h1 h2.
     bcm2835_bcm2835_mmc_write_block_pio fifo_device (host_c5 [[1, 2, 3], [4, 5, 6]]) = Some h1 \<and>
     length (hw h1) = 2 \<and>
     take 5 (fifo_bytes (hw h1)) = [1, 2, 3, 4, 5] \<and>
     bcm2835_bcm2835_mmc_read_block_pio fifo_device
       ((host_c5 [[0, 0], [0, 0, 0, 0]])\<lparr>hw := hw h1\<rparr>) = Some h2 \<and>
     concat (sg_done (sg_miter h2)) = [1, 2, 3, 4, 5]"
  using pio_block_round_trip[OF c5_inputs(1) c5_inputs(1) refl c5_inputs(2) c5_inputs(2) _ _
      c5_inputs(3), of "[[1, 2, 3], [4, 5, 6]]" "[[0, 0], [0, 0, 0, 0]]"]
  by (simp add: data0_def)

end
